theory Spec2Isabelle
  imports Complex_Main "HOL-Library.Sublist" "HOL-Library.List_Lexorder"
begin

section \<open>Strings, paths and files\<close>

text \<open>
  A Python \<open>str\<close> is a sequence of Unicode code points; the pipeline handles Hindi as well
  as English text, so a code point is a natural number here and not an 8-bit character.
  \<open>py\<close> turns an ASCII literal of the source into such a sequence.
\<close>

type_synonym pystr = "nat list"

definition py :: "string \<Rightarrow> pystr" where
  "py s = map of_char s"

text \<open>
  \<open>str.isspace\<close> for one code point: the code points that CPython's
  \<open>_PyUnicode_IsWhitespace\<close> accepts. \<open>str.strip()\<close> removes them from both ends.
\<close>

definition isspace :: "nat \<Rightarrow> bool" where
  "isspace c \<longleftrightarrow>
     (9 \<le> c \<and> c \<le> 13) \<or> (28 \<le> c \<and> c \<le> 32) \<or> c = 133 \<or> c = 160 \<or> c = 5760 \<or>
     (8192 \<le> c \<and> c \<le> 8202) \<or> c = 8232 \<or> c = 8233 \<or> c = 8239 \<or> c = 8287 \<or> c = 12288"

definition strip :: "pystr \<Rightarrow> pystr" where
  "strip s = rev (dropWhile isspace (rev (dropWhile isspace s)))"

text \<open>\<open>sep.join(xs)\<close>.\<close>

fun join :: "pystr \<Rightarrow> pystr list \<Rightarrow> pystr" where
  "join sep [] = []"
| "join sep [x] = x"
| "join sep (x # y # ys) = x @ sep @ join sep (y # ys)"

text \<open>\<open>label.replace(" ", "_")\<close>: every space becomes an underscore.\<close>

definition replace_spaces :: "pystr \<Rightarrow> pystr" where
  "replace_spaces s = map (\<lambda>c. if c = 32 then 95 else c) s"

text \<open>
  \<open>str.lower()\<close> on the ASCII letters; other code points are left as they are (the
  orchestrator only asks whether the lowered name ends with \<open>.pdf\<close>).
\<close>

definition lower :: "pystr \<Rightarrow> pystr" where
  "lower s = map (\<lambda>c. if 65 \<le> c \<and> c \<le> 90 then c + 32 else c) s"

definition endswith :: "pystr \<Rightarrow> pystr \<Rightarrow> bool" where
  "endswith s suf \<longleftrightarrow> length suf \<le> length s \<and> drop (length s - length suf) s = suf"

text \<open>The decimal rendering of a number in an f-string.\<close>

function str_nat :: "nat \<Rightarrow> pystr" where
  "str_nat n = (if n < 10 then [48 + n] else str_nat (n div 10) @ [48 + n mod 10])"
  by pat_completeness auto
termination
  by (relation "measure (\<lambda>n. n)") auto

declare str_nat.simps [simp del]

text \<open>
  A path is the list of its components, so that the model does not depend on the platform's
  separator: \<open>os.path.join(d, name)\<close> appends one component (every name joined in this
  program is a directory entry, a derived file name or a normalised label), and
  \<open>os.path.basename\<close> is the last component. The empty list is the empty string.
\<close>

type_synonym path = "pystr list"

definition path_join :: "path \<Rightarrow> pystr \<Rightarrow> path" where
  "path_join d name = d @ [name]"

definition basename :: "path \<Rightarrow> pystr" where
  "basename p = (if p = [] then [] else last p)"

text \<open>
  \<open>os.path.splitext(name)[0]\<close> for a single component: the name is cut at its last dot,
  unless only dots come before that dot (leading dots do not start an extension).
\<close>

fun last_dot :: "pystr \<Rightarrow> nat option" where
  "last_dot [] = None"
| "last_dot (c # cs) =
     (case last_dot cs of Some i \<Rightarrow> Some (Suc i) | None \<Rightarrow> if c = 46 then Some 0 else None)"

definition splitext_root :: "pystr \<Rightarrow> pystr" where
  "splitext_root name =
     (case last_dot name of
        None \<Rightarrow> name
      | Some i \<Rightarrow> if list_ex (\<lambda>c. c \<noteq> 46) (take i name) then take i name else name)"

text \<open>
  A page of a PDF has its extractable text (\<open>page.get_text()\<close>) and its raster
  (\<open>page.get_pixmap(dpi=200).tobytes()\<close>), the latter identified by a number. A file is a
  PDF that PyMuPDF opens, a text file, or bytes that PyMuPDF does not open.
\<close>

record page =
  get_text :: pystr
  pixmap :: nat

datatype fdata = Pdf "page list" | Text pystr | Opaque nat

type_synonym filesys = "path \<rightharpoonup> fdata"

datatype exn =
    RuntimeError pystr
  | FileDataError
  | CalledProcessError
  | OSError
  | IndexError
  | EngineError
  | ModelError

section \<open>The world outside the program\<close>

text \<open>
  Console output and the calls to the two models form the trace of a run.
\<close>

type_synonym score = nat

datatype event =
    LogDigital pystr
  | LogScanned pystr
  | LogError pystr exn
  | LogClassified pystr score
  | LogNoInput path
  | LogCompleted
  | CallClassifier pystr "pystr list"
  | NewReader nat bool
  | ReadText nat nat

record clf_result =
  labels :: "pystr list"
  scores :: "score list"

text \<open>
  The environment answers every call that leaves the program: which directories exist and
  what they list, which file operations are refused, whether the k-th construction of the
  recognition engine succeeds, which repair executables respond and what a repair writes
  (the file it leaves, if any, and whether it exits with status zero), what the engine reads
  from a raster and what the classification model returns.
\<close>

record env =
  isdir :: "path \<Rightarrow> bool"
  listdir :: "path \<Rightarrow> pystr list"
  makedirs_ok :: "path \<Rightarrow> bool"
  write_ok :: "path \<Rightarrow> bool"
  move_ok :: "path \<Rightarrow> path \<Rightarrow> bool"
  copy_ok :: "path \<Rightarrow> path \<Rightarrow> bool"
  reader_ok :: "nat \<Rightarrow> bool"
  gs_responds :: "pystr \<Rightarrow> bool"
  gs_run :: "pystr \<Rightarrow> fdata option \<Rightarrow> fdata option \<times> bool"
  readtext :: "nat \<Rightarrow> nat \<Rightarrow> exn + pystr list"
  classifier :: "pystr \<Rightarrow> pystr list \<Rightarrow> exn + clf_result"

record state =
  fs :: filesys
  events :: "event list"
  readers :: nat

definition emit :: "event \<Rightarrow> state \<Rightarrow> state" where
  "emit e st = st\<lparr>events := events st @ [e]\<rparr>"

section \<open>Zero-shot classifier\<close>

definition LABELS :: "pystr list" where
  "LABELS = [py ''static data'', py ''dynamic data'']"

definition classify_text :: "env \<Rightarrow> pystr \<Rightarrow> state \<Rightarrow> (exn + pystr) \<times> state" where
  "classify_text env text st =
     (if strip text = [] then (Inr (py ''unknown''), st)
      else
        let st1 = emit (CallClassifier text LABELS) st in
        case classifier env text LABELS of
          Inl e \<Rightarrow> (Inl e, st1)
        | Inr result \<Rightarrow>
            (case labels result of
               [] \<Rightarrow> (Inl IndexError, st1)
             | label # _ \<Rightarrow>
                 (case scores result of
                    [] \<Rightarrow> (Inl IndexError, st1)
                  | score # _ \<Rightarrow> (Inr label, emit (LogClassified label score) st1))))"

section \<open>PDF processing functions\<close>

definition fitz_open :: "filesys \<Rightarrow> path \<Rightarrow> exn + page list" where
  "fitz_open f p = (case f p of Some (Pdf doc) \<Rightarrow> Inr doc | _ \<Rightarrow> Inl FileDataError)"

text \<open>
  \<open>text_pages >= doc.page_count / 2\<close> is a true division: the count is compared with a
  fraction, not with a rounded quotient.
\<close>

definition is_digital :: "filesys \<Rightarrow> path \<Rightarrow> bool" where
  "is_digital f pdf_path =
     (case fitz_open f pdf_path of
        Inl _ \<Rightarrow> False
      | Inr doc \<Rightarrow>
          let text_pages = sum_list (map (\<lambda>page. 1) (filter (\<lambda>page. strip (get_text page) \<noteq> []) doc))
          in (of_int text_pages :: real) \<ge> of_nat (length doc) / 2)"

text \<open>
  The three candidate names are probed in order; the first that answers \<open>-v\<close> is used.
\<close>

definition gs_candidates :: "pystr list" where
  "gs_candidates = [py ''gswin64c'', py ''gswin32c'', py ''gs'']"

fun probe_gs :: "env \<Rightarrow> pystr list \<Rightarrow> pystr option" where
  "probe_gs env [] = None"
| "probe_gs env (cand # rest) = (if gs_responds env cand then Some cand else probe_gs env rest)"

definition ghostscript_repair :: "env \<Rightarrow> path \<Rightarrow> path \<Rightarrow> state \<Rightarrow> (exn + path) \<times> state" where
  "ghostscript_repair env pdf_path repaired_dir st =
     (if \<not> makedirs_ok env repaired_dir then (Inl OSError, st)
      else
        let out_path = path_join repaired_dir (basename pdf_path) in
        case probe_gs env gs_candidates of
          None \<Rightarrow> (Inl (RuntimeError (py ''Ghostscript not found. Please install it.'')), st)
        | Some gs \<Rightarrow>
            (case gs_run env gs (fs st pdf_path) of
               (written, exit_ok) \<Rightarrow>
                 let st1 = (case written of
                              None \<Rightarrow> st
                            | Some c \<Rightarrow> st\<lparr>fs := (fs st)(out_path \<mapsto> c)\<rparr>)
                 in if exit_ok then (Inr out_path, st1) else (Inl CalledProcessError, st1)))"

text \<open>\<open>txt_file.write(s)\<close> on the file opened at \<open>txt_path\<close>.\<close>

definition file_write :: "path \<Rightarrow> pystr \<Rightarrow> state \<Rightarrow> state" where
  "file_write txt_path s st =
     st\<lparr>fs := (fs st)(txt_path \<mapsto>
        Text ((case fs st txt_path of Some (Text t) \<Rightarrow> t | _ \<Rightarrow> []) @ s))\<rparr>"

text \<open>The loop over \<open>range(doc.page_count)\<close>; it stops at the first page the engine fails on.\<close>

function ocr_loop :: "env \<Rightarrow> nat \<Rightarrow> path \<Rightarrow> page list \<Rightarrow> nat \<Rightarrow> state \<Rightarrow> exn option \<times> state" where
  "ocr_loop env reader txt_path doc page_num st =
     (if page_num < length doc then
        let page = doc ! page_num;
            pix = pixmap page;
            st1 = emit (ReadText reader pix) st
        in case readtext env reader pix of
             Inl e \<Rightarrow> (Some e, st1)
           | Inr ocr_result \<Rightarrow>
               let st2 = file_write txt_path (py ''Page '' @ str_nat (page_num + 1) @ py '':'' @ [10]) st1;
                   st3 = file_write txt_path (join (py '' '') ocr_result) st2;
                   st4 = file_write txt_path ([10] @ replicate 80 45 @ [10]) st3
               in ocr_loop env reader txt_path doc (page_num + 1) st4
      else (None, st))"
  by pat_completeness auto
termination
  by (relation "measure (\<lambda>(env, reader, txt_path, doc, page_num, st). length doc - page_num)") auto

declare ocr_loop.simps [simp del]

definition ocr_extract :: "env \<Rightarrow> path \<Rightarrow> path \<Rightarrow> nat \<Rightarrow> state \<Rightarrow> (exn + path) \<times> state" where
  "ocr_extract env pdf_path ocr_dir reader st =
     (if \<not> makedirs_ok env ocr_dir then (Inl OSError, st)
      else
        let base = splitext_root (basename pdf_path);
            txt_path = path_join ocr_dir (base @ py ''_ocr.txt'')
        in case fitz_open (fs st) pdf_path of
             Inl e \<Rightarrow> (Inl e, st)
           | Inr doc \<Rightarrow>
               if \<not> write_ok env txt_path then (Inl OSError, st)
               else
                 (case ocr_loop env reader txt_path doc 0 (st\<lparr>fs := (fs st)(txt_path \<mapsto> Text [])\<rparr>) of
                    (Some e, st1) \<Rightarrow> (Inl e, st1)
                  | (None, st1) \<Rightarrow> (Inr txt_path, st1)))"

text \<open>
  \<open>shutil.move\<close> and \<open>shutil.copy\<close> between two file paths. A move onto the same path
  changes nothing.
\<close>

definition shutil_move :: "env \<Rightarrow> path \<Rightarrow> path \<Rightarrow> state \<Rightarrow> exn option \<times> state" where
  "shutil_move env src dst st =
     (case fs st src of
        None \<Rightarrow> (Some OSError, st)
      | Some c \<Rightarrow>
          if \<not> move_ok env src dst then (Some OSError, st)
          else if src = dst then (None, st)
          else (None, st\<lparr>fs := ((fs st)(dst \<mapsto> c))(src := None)\<rparr>))"

definition shutil_copy :: "env \<Rightarrow> path \<Rightarrow> path \<Rightarrow> state \<Rightarrow> exn option \<times> state" where
  "shutil_copy env src dst st =
     (case fs st src of
        None \<Rightarrow> (Some OSError, st)
      | Some c \<Rightarrow>
          if \<not> copy_ok env src dst then (Some OSError, st)
          else (None, st\<lparr>fs := (fs st)(dst \<mapsto> c)\<rparr>))"

text \<open>\<open>open(txt_path, "r").read()\<close>.\<close>

definition read_text :: "filesys \<Rightarrow> path \<Rightarrow> exn + pystr" where
  "read_text f p = (case f p of Some (Text t) \<Rightarrow> Inr t | _ \<Rightarrow> Inl OSError)"

text \<open>\<open>easyocr.Reader(...)\<close>: the instance is named by the number of the attempt that made it.\<close>

definition new_reader :: "env \<Rightarrow> state \<Rightarrow> (exn + nat) \<times> state" where
  "new_reader env st =
     (let k = readers st;
          ok = reader_ok env k;
          st1 = emit (NewReader k ok) (st\<lparr>readers := k + 1\<rparr>)
      in if ok then (Inr k, st1) else (Inl EngineError, st1))"

text \<open>Classify the text and move the artifact into the directory of its label.\<close>

definition classify_and_file ::
  "env \<Rightarrow> pystr \<Rightarrow> path \<Rightarrow> path \<Rightarrow> state \<Rightarrow> exn option \<times> state" where
  "classify_and_file env text_content out_root artifact st =
     (case classify_text env text_content st of
        (Inl e, st1) \<Rightarrow> (Some e, st1)
      | (Inr label, st1) \<Rightarrow>
          let classified_dir = path_join out_root (replace_spaces label) in
          if \<not> makedirs_ok env classified_dir then (Some OSError, st1)
          else shutil_move env artifact (path_join classified_dir (basename artifact)) st1)"

text \<open>The two branches inside the \<open>try\<close> of \<open>process_pdf\<close>.\<close>

definition digital_branch :: "env \<Rightarrow> path \<Rightarrow> path \<Rightarrow> state \<Rightarrow> exn option \<times> state" where
  "digital_branch env pdf_path repaired_dir st =
     (case ghostscript_repair env pdf_path repaired_dir (emit (LogDigital (basename pdf_path)) st) of
        (Inl e, st1) \<Rightarrow> (Some e, st1)
      | (Inr repaired_path, st1) \<Rightarrow>
          (case fitz_open (fs st1) repaired_path of
             Inl e \<Rightarrow> (Some e, st1)
           | Inr doc \<Rightarrow>
               classify_and_file env (join [10] (map get_text doc)) repaired_dir repaired_path st1))"

definition scanned_branch ::
  "env \<Rightarrow> path \<Rightarrow> path \<Rightarrow> nat option \<Rightarrow> state \<Rightarrow> exn option \<times> state" where
  "scanned_branch env pdf_path ocr_dir reader st =
     (case (case reader of
              None \<Rightarrow> new_reader env (emit (LogScanned (basename pdf_path)) st)
            | Some r \<Rightarrow> (Inr r, emit (LogScanned (basename pdf_path)) st)) of
        (Inl e, st1) \<Rightarrow> (Some e, st1)
      | (Inr r, st1) \<Rightarrow>
          (case ocr_extract env pdf_path ocr_dir r st1 of
             (Inl e, st2) \<Rightarrow> (Some e, st2)
           | (Inr txt_path, st2) \<Rightarrow>
               (case read_text (fs st2) txt_path of
                  Inl e \<Rightarrow> (Some e, st2)
                | Inr text_content \<Rightarrow> classify_and_file env text_content ocr_dir txt_path st2)))"

text \<open>\<open>if error_dir:\<close> holds for a directory that is neither \<open>None\<close> nor the empty string.\<close>

definition truthy :: "path option \<Rightarrow> bool" where
  "truthy d = (case d of None \<Rightarrow> False | Some p \<Rightarrow> p \<noteq> [])"

text \<open>
  The handler of \<open>process_pdf\<close>: the message, then the copy into the error directory, whose
  own failure is passed over. \<open>os.makedirs\<close> is outside the inner \<open>try\<close>, so its failure
  leaves \<open>process_pdf\<close> as an exception.
\<close>

definition handle_error :: "env \<Rightarrow> path \<Rightarrow> path option \<Rightarrow> exn \<Rightarrow> state \<Rightarrow> exn option \<times> state" where
  "handle_error env pdf_path error_dir e st =
     (let st1 = emit (LogError (basename pdf_path) e) st in
      if truthy error_dir then
        if \<not> makedirs_ok env (the error_dir) then (Some OSError, st1)
        else (None, snd (shutil_copy env pdf_path (path_join (the error_dir) (basename pdf_path)) st1))
      else (None, st1))"

definition process_pdf ::
  "env \<Rightarrow> path \<Rightarrow> path \<Rightarrow> path \<Rightarrow> path option \<Rightarrow> nat option \<Rightarrow> state \<Rightarrow> exn option \<times> state" where
  "process_pdf env pdf_path repaired_dir ocr_dir error_dir reader st =
     (case (if is_digital (fs st) pdf_path then digital_branch env pdf_path repaired_dir st
            else scanned_branch env pdf_path ocr_dir reader st) of
        (None, st1) \<Rightarrow> (None, st1)
      | (Some e, st1) \<Rightarrow> handle_error env pdf_path error_dir e st1)"

section \<open>The batch run\<close>

text \<open>
  The loop of \<open>main\<close> over the sorted directory listing, with its counter: a name that is
  not a PDF name is skipped, the loop is left once the counter has reached the limit, and
  the counter goes up after each call of \<open>process_pdf\<close>. The counter is returned with the
  state.
\<close>

fun main_loop ::
  "env \<Rightarrow> path \<Rightarrow> path \<Rightarrow> path \<Rightarrow> path option \<Rightarrow> int option \<Rightarrow> nat option \<Rightarrow>
   pystr list \<Rightarrow> int \<Rightarrow> state \<Rightarrow> exn option \<times> int \<times> state" where
  "main_loop env input_dir repaired_dir ocr_dir error_dir limit reader [] count st = (None, count, st)"
| "main_loop env input_dir repaired_dir ocr_dir error_dir limit reader (filename # rest) count st =
     (if \<not> endswith (lower filename) (py ''.pdf'') then
        main_loop env input_dir repaired_dir ocr_dir error_dir limit reader rest count st
      else if (case limit of None \<Rightarrow> False | Some l \<Rightarrow> count \<ge> l) then (None, count, st)
      else
        (case process_pdf env (path_join input_dir filename) repaired_dir ocr_dir error_dir reader st of
           (Some e, st1) \<Rightarrow> (Some e, count, st1)
         | (None, st1) \<Rightarrow>
             main_loop env input_dir repaired_dir ocr_dir error_dir limit reader rest (count + 1) st1))"

definition main ::
  "env \<Rightarrow> path \<Rightarrow> path \<Rightarrow> path \<Rightarrow> path option \<Rightarrow> int option \<Rightarrow> state \<Rightarrow> exn option \<times> state" where
  "main env input_dir repaired_dir ocr_dir error_dir limit st =
     (if \<not> isdir env input_dir then (None, emit (LogNoInput input_dir) st)
      else if \<not> makedirs_ok env repaired_dir then (Some OSError, st)
      else if \<not> makedirs_ok env ocr_dir then (Some OSError, st)
      else if truthy error_dir \<and> \<not> makedirs_ok env (the error_dir) then (Some OSError, st)
      else
        (case new_reader env st of
           (r, st1) \<Rightarrow>
             let reader = (case r of Inl _ \<Rightarrow> None | Inr k \<Rightarrow> Some k) in
             (case main_loop env input_dir repaired_dir ocr_dir error_dir limit reader
                     (sort (listdir env input_dir)) 0 st1 of
                (Some e, _, st2) \<Rightarrow> (Some e, st2)
              | (None, _, st2) \<Rightarrow> (None, emit LogCompleted st2))))"

section \<open>Notions of the specification\<close>

text \<open>
  A text is blank when every code point of it is whitespace; a page counts as a text page
  when its extractable text is not blank after stripping.
\<close>

definition blank :: "pystr \<Rightarrow> bool" where
  "blank t \<longleftrightarrow> (\<forall>c\<in>set t. isspace c)"

definition text_page_count :: "page list \<Rightarrow> nat" where
  "text_page_count doc = length (filter (\<lambda>page. strip (get_text page) \<noteq> []) doc)"

text \<open>
  The block of page \<open>k\<close> in an OCR text file: the marker line, the fragments joined by
  single spaces, and a line of 80 hyphens.
\<close>

definition page_block :: "nat \<Rightarrow> pystr list \<Rightarrow> pystr" where
  "page_block k frags =
     py ''Page '' @ str_nat k @ py '':'' @ [10] @ join (py '' '') frags @ [10] @ replicate 80 45 @ [10]"

text \<open>The name of the OCR text file of a document.\<close>

definition ocr_name :: "pystr \<Rightarrow> pystr" where
  "ocr_name filename = splitext_root filename @ py ''_ocr.txt''"

definition is_model_call :: "event \<Rightarrow> bool" where
  "is_model_call e = (case e of CallClassifier _ _ \<Rightarrow> True | _ \<Rightarrow> False)"

subsection \<open>Traces\<close>

text \<open>
  The events a run adds to the trace, and what is read off them: the documents handed to
  \<open>process_pdf\<close> (each prints one of the two processing messages first), the documents
  whose processing raised (the error message of the handler), the constructions of the
  recognition engine and the engine instances that read a page.
\<close>

definition new_events :: "state \<Rightarrow> state \<Rightarrow> event list" where
  "new_events st st' = drop (length (events st)) (events st')"

definition started :: "event \<Rightarrow> pystr list" where
  "started e = (case e of LogDigital n \<Rightarrow> [n] | LogScanned n \<Rightarrow> [n] | _ \<Rightarrow> [])"

definition dispatched :: "event list \<Rightarrow> pystr list" where
  "dispatched evs = concat (map started evs)"

definition failed :: "event \<Rightarrow> pystr list" where
  "failed e = (case e of LogError n _ \<Rightarrow> [n] | _ \<Rightarrow> [])"

definition failures :: "event list \<Rightarrow> pystr list" where
  "failures evs = concat (map failed evs)"

definition is_construction :: "event \<Rightarrow> bool" where
  "is_construction e = (case e of NewReader _ _ \<Rightarrow> True | _ \<Rightarrow> False)"

definition constructions :: "event list \<Rightarrow> event list" where
  "constructions evs = filter is_construction evs"

definition engine_of :: "event \<Rightarrow> nat list" where
  "engine_of e = (case e of ReadText r _ \<Rightarrow> [r] | _ \<Rightarrow> [])"

definition engines_used :: "event list \<Rightarrow> nat list" where
  "engines_used evs = concat (map engine_of evs)"

text \<open>
  Kinds of events: those of the classifier, the reads of one engine instance, the events
  that can occur inside the processing of one document (given the reader handed in and the
  number the next construction would get), and the events allowed once the engine \<open>r\<close>
  exists: no further construction, and reads by \<open>r\<close> only.
\<close>

definition clf_event :: "event \<Rightarrow> bool" where
  "clf_event e = (case e of CallClassifier _ _ \<Rightarrow> True | LogClassified _ _ \<Rightarrow> True | _ \<Rightarrow> False)"

definition read_event :: "nat \<Rightarrow> event \<Rightarrow> bool" where
  "read_event r e = (case e of ReadText r' _ \<Rightarrow> r' = r | _ \<Rightarrow> False)"

definition inner :: "nat option \<Rightarrow> nat \<Rightarrow> event \<Rightarrow> bool" where
  "inner rd k e =
     (case e of
        CallClassifier _ _ \<Rightarrow> True
      | LogClassified _ _ \<Rightarrow> True
      | ReadText r _ \<Rightarrow> r = (case rd of Some r' \<Rightarrow> r' | None \<Rightarrow> k)
      | NewReader j _ \<Rightarrow> rd = None \<and> j = k
      | _ \<Rightarrow> False)"

definition engine_ok :: "nat \<Rightarrow> event \<Rightarrow> bool" where
  "engine_ok r e = (case e of NewReader _ _ \<Rightarrow> False | ReadText r' _ \<Rightarrow> r' = r | _ \<Rightarrow> True)"

subsection \<open>The documents of a run\<close>

text \<open>
  The PDF names of the input directory in the order of the loop, the part of them within the
  processing cap (from a given value of the counter), and the checks \<open>main\<close> makes before
  its loop.
\<close>

definition is_pdf_name :: "pystr \<Rightarrow> bool" where
  "is_pdf_name filename = endswith (lower filename) (py ''.pdf'')"

definition pdf_files :: "env \<Rightarrow> path \<Rightarrow> pystr list" where
  "pdf_files env idir = filter is_pdf_name (sort (listdir env idir))"

definition capped :: "int option \<Rightarrow> pystr list \<Rightarrow> pystr list" where
  "capped limit names = (case limit of None \<Rightarrow> names | Some n \<Rightarrow> take (nat n) names)"

definition cap_from :: "int option \<Rightarrow> int \<Rightarrow> pystr list \<Rightarrow> pystr list" where
  "cap_from limit count names = (case limit of None \<Rightarrow> names | Some l \<Rightarrow> take (nat (l - count)) names)"

definition setup_ok :: "env \<Rightarrow> path \<Rightarrow> path \<Rightarrow> path \<Rightarrow> path option \<Rightarrow> bool" where
  "setup_ok env idir rdir odir ed \<longleftrightarrow>
     isdir env idir \<and> makedirs_ok env rdir \<and> makedirs_ok env odir \<and>
     (truthy ed \<longrightarrow> makedirs_ok env (the ed))"

subsection \<open>Output tree\<close>

text \<open>
  Two directories are separate when neither lies inside the other. For a document named
  \<open>n\<close>: its repaired copy is filed when some subdirectory of the repaired root holds a
  file \<open>n\<close>, its OCR text is filed when some subdirectory of the OCR root holds its text
  file, and it is quarantined when the error directory holds a file \<open>n\<close>. The paths a
  document can write are those three kinds and the two unfiled artifacts.
\<close>

definition separate :: "path \<Rightarrow> path \<Rightarrow> bool" where
  "separate a b \<longleftrightarrow> \<not> prefix a b \<and> \<not> prefix b a"

definition dirs_separate :: "path \<Rightarrow> path \<Rightarrow> path \<Rightarrow> path \<Rightarrow> bool" where
  "dirs_separate idir rdir odir edir \<longleftrightarrow>
     separate idir rdir \<and> separate idir odir \<and> separate idir edir \<and>
     separate rdir odir \<and> separate rdir edir \<and> separate odir edir"






definition touches :: "path \<Rightarrow> path \<Rightarrow> path \<Rightarrow> pystr \<Rightarrow> path set" where
  "touches rdir odir edir n =
     {rdir @ [n], odir @ [ocr_name n], edir @ [n]} \<union> range (\<lambda>l. rdir @ [l, n]) \<union>
     range (\<lambda>l. odir @ [l, ocr_name n])"

text \<open>
  The effect of a move on the file system, and the two shapes of the file system after one
  document: filed (the artifact is under a label directory of its root and nothing else
  changed but the unfiled artifact), or errored (only the unfiled artifacts may differ, then
  the handler ran: it raised at \<open>os.makedirs\<close>, or copied the source, or passed over a
  failed copy).
\<close>

definition move_fs :: "filesys \<Rightarrow> path \<Rightarrow> path \<Rightarrow> filesys" where
  "move_fs f src dst = (if src = dst then f else (f(dst := f src))(src := None))"

definition filed_fs :: "path \<Rightarrow> path \<Rightarrow> pystr \<Rightarrow> filesys \<Rightarrow> filesys \<Rightarrow> bool" where
  "filed_fs rdir odir n f f' \<longleftrightarrow>
     (\<exists>l. f' (rdir @ [l, n]) \<noteq> None \<and>
          (\<forall>q. q \<noteq> rdir @ [n] \<and> q \<noteq> rdir @ [l, n] \<longrightarrow> f' q = f q)) \<or>
     (\<exists>l. f' (odir @ [l, ocr_name n]) \<noteq> None \<and>
          (\<forall>q. q \<noteq> odir @ [ocr_name n] \<and> q \<noteq> odir @ [l, ocr_name n] \<longrightarrow> f' q = f q))"

definition errored_fs ::
  "env \<Rightarrow> path \<Rightarrow> path \<Rightarrow> path \<Rightarrow> path option \<Rightarrow> filesys \<Rightarrow> exn option \<Rightarrow> filesys \<Rightarrow> bool" where
  "errored_fs env p rdir odir ed f x f' \<longleftrightarrow>
     (\<exists>mid. (\<forall>q. q \<noteq> rdir @ [basename p] \<and> q \<noteq> odir @ [ocr_name (basename p)] \<longrightarrow> mid q = f q) \<and>
        (if truthy ed \<and> \<not> makedirs_ok env (the ed) then x = Some OSError \<and> f' = mid
         else x = None \<and>
              f' = (if truthy ed \<and> copy_ok env p (the ed @ [basename p]) \<and> mid p \<noteq> None
                    then mid(the ed @ [basename p] := mid p) else mid)))"

text \<open>The error raised when no repair executable responds.\<close>

definition not_found :: exn where
  "not_found = RuntimeError (py ''Ghostscript not found. Please install it.'')"

section \<open>Example configurations\<close>

definition doc2 :: "page list" where
  "doc2 = [\<lparr>get_text = [], pixmap = 7\<rparr>, \<lparr>get_text = [], pixmap = 8\<rparr>]"

definition ocr_env :: env where
  "ocr_env = \<lparr> isdir = (\<lambda>_. True), listdir = (\<lambda>_. [py ''scan.pdf'']),
     makedirs_ok = (\<lambda>_. True), write_ok = (\<lambda>_. True), move_ok = (\<lambda>_ _. True),
     copy_ok = (\<lambda>_ _. True), reader_ok = (\<lambda>_. True), gs_responds = (\<lambda>_. True),
     gs_run = (\<lambda>_ c. (c, True)),
     readtext = (\<lambda>_ pix. if pix = 7 then Inr [py ''ab'', py ''c''] else Inr []),
     classifier = (\<lambda>t ls. Inr \<lparr>labels = ls, scores = [90, 10]\<rparr>) \<rparr>"

definition ocr_st :: state where
  "ocr_st = \<lparr> fs = [[py ''in'', py ''scan.pdf''] \<mapsto> Pdf doc2], events = [], readers = 1 \<rparr>"

definition half_doc :: "page list" where
  "half_doc = [\<lparr>get_text = py ''Tariff'', pixmap = 1\<rparr>, \<lparr>get_text = [32, 10], pixmap = 2\<rparr>]"

definition half_st :: state where
  "half_st = \<lparr> fs = [[py ''in'', py ''half.pdf''] \<mapsto> Pdf half_doc,
                     [py ''in'', py ''full.pdf''] \<mapsto> Pdf [\<lparr>get_text = py ''text'', pixmap = 3\<rparr>],
                     [py ''in'', py ''junk.pdf''] \<mapsto> Opaque 0],
               events = [], readers = 0 \<rparr>"

text \<open>
  The default directories of \<open>main\<close>, two pages, and environments and initial states for
  runs: no repair executable installed (\<open>base_env\<close>), an engine whose first construction
  fails (\<open>retry_env\<close>), copies refused (\<open>refuse_env\<close>), a working repair tool
  (\<open>mixed_env\<close>), the same with copies refused (\<open>stubborn_env\<close>) or with two names
  that differ only in the case of the extension (\<open>twin_env\<close>), and a directory of five
  PDFs (\<open>five_env\<close>). \<open>rerun_st\<close> holds a quarantined copy left by an earlier run.
\<close>

definition in_dir :: path where "in_dir = [py ''.'', py ''data'', py ''pdfs'']"

definition rep_dir :: path where "rep_dir = [py ''.'', py ''sorted_data'', py ''repaired'']"

definition txt_dir :: path where "txt_dir = [py ''.'', py ''sorted_data'', py ''ocr_texts'']"

definition err_dir :: path where "err_dir = [py ''.'', py ''sorted_data'', py ''error'']"

definition blank_page :: page where "blank_page = \<lparr>get_text = [], pixmap = 5\<rparr>"

definition text_page :: page where "text_page = \<lparr>get_text = py ''Tariff order'', pixmap = 6\<rparr>"

definition base_env :: env where
  "base_env = \<lparr> isdir = (\<lambda>_. True), listdir = (\<lambda>_. [py ''b.pdf'', py ''a.pdf'']),
     makedirs_ok = (\<lambda>_. True), write_ok = (\<lambda>_. True), move_ok = (\<lambda>_ _. True),
     copy_ok = (\<lambda>_ _. True), reader_ok = (\<lambda>_. True), gs_responds = (\<lambda>_. False),
     gs_run = (\<lambda>_ c. (c, True)),
     readtext = (\<lambda>_ _. Inr [py ''x'']),
     classifier = (\<lambda>t ls. Inr \<lparr>labels = ls, scores = [90, 10]\<rparr>) \<rparr>"

definition retry_env :: env where
  "retry_env = base_env\<lparr>reader_ok := (\<lambda>k. 0 < k)\<rparr>"

definition refuse_env :: env where
  "refuse_env = base_env\<lparr>copy_ok := (\<lambda>_ _. False)\<rparr>"

definition mixed_env :: env where
  "mixed_env = base_env\<lparr>listdir := (\<lambda>_. [py ''scan.pdf'', py ''good.pdf'', py ''bad.pdf'']),
                         gs_responds := (\<lambda>cand. cand = py ''gs'')\<rparr>"

definition five_env :: env where
  "five_env = base_env\<lparr>listdir :=
     (\<lambda>_. [py ''e.pdf'', py ''c.pdf'', py ''notes.txt'', py ''a.pdf'', py ''d.pdf'', py ''B.PDF''])\<rparr>"

definition stubborn_env :: env where
  "stubborn_env = mixed_env\<lparr>copy_ok := (\<lambda>_ _. False)\<rparr>"

definition twin_env :: env where
  "twin_env = mixed_env\<lparr>listdir := (\<lambda>_. [py ''a.pdf'', py ''a.PDF''])\<rparr>"

definition two_scans :: state where
  "two_scans = \<lparr> fs = [in_dir @ [py ''a.pdf''] \<mapsto> Pdf [blank_page],
                       in_dir @ [py ''b.pdf''] \<mapsto> Pdf [blank_page]],
                 events = [], readers = 0 \<rparr>"

definition two_docs :: state where
  "two_docs = \<lparr> fs = [in_dir @ [py ''a.pdf''] \<mapsto> Pdf [text_page],
                      in_dir @ [py ''b.pdf''] \<mapsto> Pdf [blank_page]],
                events = [], readers = 0 \<rparr>"

definition two_opaque :: state where
  "two_opaque = \<lparr> fs = [in_dir @ [py ''a.pdf''] \<mapsto> Opaque 1,
                        in_dir @ [py ''b.pdf''] \<mapsto> Opaque 2],
                  events = [], readers = 1 \<rparr>"

definition locked_first :: state where
  "locked_first = \<lparr> fs = [in_dir @ [py ''a.pdf''] \<mapsto> Opaque 0,
                          in_dir @ [py ''b.pdf''] \<mapsto> Pdf [blank_page]],
                    events = [], readers = 0 \<rparr>"

definition mixed_st :: state where
  "mixed_st = \<lparr> fs = [in_dir @ [py ''bad.pdf''] \<mapsto> Opaque 0,
                      in_dir @ [py ''good.pdf''] \<mapsto> Pdf [text_page],
                      in_dir @ [py ''scan.pdf''] \<mapsto> Pdf [blank_page]],
                events = [], readers = 0 \<rparr>"

definition rerun_st :: state where
  "rerun_st = \<lparr> fs = [in_dir @ [py ''bad.pdf''] \<mapsto> Opaque 0,
                      in_dir @ [py ''good.pdf''] \<mapsto> Pdf [text_page],
                      in_dir @ [py ''scan.pdf''] \<mapsto> Pdf [blank_page],
                      err_dir @ [py ''good.pdf''] \<mapsto> Pdf [text_page]],
                events = [], readers = 0 \<rparr>"

definition twin_st :: state where
  "twin_st = \<lparr> fs = [in_dir @ [py ''a.PDF''] \<mapsto> Pdf [blank_page],
                     in_dir @ [py ''a.pdf''] \<mapsto> Opaque 0],
               events = [], readers = 0 \<rparr>"

definition five_st :: state where
  "five_st = \<lparr> fs = [in_dir @ [py ''a.pdf''] \<mapsto> Pdf [blank_page],
                     in_dir @ [py ''B.PDF''] \<mapsto> Pdf [text_page],
                     in_dir @ [py ''c.pdf''] \<mapsto> Pdf [blank_page],
                     in_dir @ [py ''d.pdf''] \<mapsto> Opaque 4,
                     in_dir @ [py ''e.pdf''] \<mapsto> Pdf [text_page],
                     in_dir @ [py ''notes.txt''] \<mapsto> Text (py ''todo'')],
               events = [], readers = 0 \<rparr>"

section \<open>Digital-content detector\<close>

lemma strip_empty_iff: "strip s = [] \<longleftrightarrow> (\<forall>c\<in>set s. isspace c)"
proof -
  have "strip s = [] \<longleftrightarrow> (\<forall>c\<in>set (dropWhile isspace s). isspace c)"
    by (simp add: strip_def dropWhile_eq_Nil_conv)
  also have "\<dots> \<longleftrightarrow> dropWhile isspace s = []"
  proof
    assume a: "\<forall>c\<in>set (dropWhile isspace s). isspace c"
    show "dropWhile isspace s = []"
    proof (rule ccontr)
      assume "dropWhile isspace s \<noteq> []"
      then have "\<not> isspace (hd (dropWhile isspace s))" by (rule hd_dropWhile)
      moreover have "hd (dropWhile isspace s) \<in> set (dropWhile isspace s)"
        using \<open>dropWhile isspace s \<noteq> []\<close> by simp
      ultimately show False using a by blast
    qed
  next
    assume "dropWhile isspace s = []"
    then show "\<forall>c\<in>set (dropWhile isspace s). isspace c" by (simp only: set_simps ball_empty)
  qed
  also have "\<dots> \<longleftrightarrow> (\<forall>c\<in>set s. isspace c)"
    by (simp add: dropWhile_eq_Nil_conv)
  finally show ?thesis .
qed

lemma sum_ones: "sum_list (map (\<lambda>x. 1::int) xs) = int (length xs)"
  by (induction xs) auto

lemma is_digital_open:
  "fitz_open f p = Inr doc \<Longrightarrow> is_digital f p \<longleftrightarrow> length doc \<le> 2 * text_page_count doc"
  by (auto simp: is_digital_def text_page_count_def sum_ones field_simps)

lemma is_digital_closed: "fitz_open f p = Inl e \<Longrightarrow> \<not> is_digital f p"
  by (simp add: is_digital_def)

text \<open>
  Claim C5. For a document that opens, the detector answers digital exactly when the pages
  with non-blank extractable text are at least half of all pages (twice their number is at
  least the page count); for a document that does not open it answers false.
\<close>

theorem is_digital_threshold:
  "(fitz_open f p = Inr doc \<longrightarrow> (is_digital f p \<longleftrightarrow> length doc \<le> 2 * text_page_count doc)) \<and>
   (fitz_open f p = Inl e \<longrightarrow> \<not> is_digital f p)"
  using is_digital_open is_digital_closed by blast

theorem is_digital_threshold_witness:
  "fitz_open (fs half_st) [py ''in'', py ''half.pdf''] = Inr half_doc \<and>
   length half_doc = 2 \<and> text_page_count half_doc = 1 \<and>
   is_digital (fs half_st) [py ''in'', py ''half.pdf''] \<and>
   fitz_open (fs half_st) [py ''in'', py ''junk.pdf''] = Inl FileDataError \<and>
   \<not> is_digital (fs half_st) [py ''in'', py ''junk.pdf'']"
proof -
  have o: "fitz_open (fs half_st) [py ''in'', py ''half.pdf''] = Inr half_doc"
    by (simp add: fitz_open_def half_st_def py_def)
  have c: "fitz_open (fs half_st) [py ''in'', py ''junk.pdf''] = Inl FileDataError"
    by (simp add: fitz_open_def half_st_def py_def)
  have n: "length half_doc = 2" "text_page_count half_doc = 1"
    by (simp_all add: half_doc_def text_page_count_def strip_def isspace_def py_def)
  show ?thesis
    using is_digital_threshold [of "fs half_st" "[py ''in'', py ''half.pdf'']" half_doc FileDataError]
      is_digital_threshold [of "fs half_st" "[py ''in'', py ''junk.pdf'']" half_doc FileDataError]
      o c n by simp
qed

text \<open>
  Claim C6, as amended. For a document that opens: if every page has extractable text it is
  classified digital, whatever the page count; if it has at least one page and no page has
  extractable text it is classified non-digital.
\<close>

theorem is_digital_extremes:
  "fitz_open f p = Inr doc \<Longrightarrow>
     ((\<forall>page\<in>set doc. \<not> blank (get_text page)) \<longrightarrow> is_digital f p) \<and>
     (doc \<noteq> [] \<and> (\<forall>page\<in>set doc. blank (get_text page)) \<longrightarrow> \<not> is_digital f p)"
proof -
  assume op: "fitz_open f p = Inr doc"
  have a: "(\<forall>page\<in>set doc. \<not> blank (get_text page)) \<Longrightarrow> text_page_count doc = length doc"
    by (simp add: text_page_count_def blank_def strip_empty_iff)
  have b: "(\<forall>page\<in>set doc. blank (get_text page)) \<Longrightarrow> text_page_count doc = 0"
    by (simp add: text_page_count_def blank_def strip_empty_iff)
  show ?thesis
    using a b is_digital_open [OF op] by auto
qed

theorem is_digital_extremes_witness:
  "fitz_open (fs half_st) [py ''in'', py ''full.pdf''] = Inr [\<lparr>get_text = py ''text'', pixmap = 3\<rparr>] \<and>
   list_all (\<lambda>page. \<not> blank (get_text page)) [\<lparr>get_text = py ''text'', pixmap = 3\<rparr>] \<and>
   is_digital (fs half_st) [py ''in'', py ''full.pdf''] \<and>
   fitz_open (fs ocr_st) [py ''in'', py ''scan.pdf''] = Inr doc2 \<and>
   doc2 \<noteq> [] \<and> list_all (\<lambda>page. blank (get_text page)) doc2 \<and>
   \<not> is_digital (fs ocr_st) [py ''in'', py ''scan.pdf'']"
proof -
  have o1: "fitz_open (fs half_st) [py ''in'', py ''full.pdf''] = Inr [\<lparr>get_text = py ''text'', pixmap = 3\<rparr>]"
    by (simp add: fitz_open_def half_st_def py_def)
  have a1: "list_all (\<lambda>page. \<not> blank (get_text page)) [\<lparr>get_text = py ''text'', pixmap = 3\<rparr>]"
    by (simp add: blank_def isspace_def py_def)
  have o2: "fitz_open (fs ocr_st) [py ''in'', py ''scan.pdf''] = Inr doc2"
    by (simp add: fitz_open_def ocr_st_def)
  have a2: "doc2 \<noteq> [] \<and> list_all (\<lambda>page. blank (get_text page)) doc2"
    by (simp add: doc2_def blank_def)
  show ?thesis
    using is_digital_extremes [OF o1] is_digital_extremes [OF o2] o1 a1 o2 a2
    unfolding list_all_iff by blast
qed

text \<open>
  Claim C6, as stated, fails for a document without pages: none of its pages has extractable
  text, and it is classified digital, because zero is at least half of zero.
\<close>

theorem is_digital_zero_pages_counterexample:
  "fitz_open [[py ''in'', py ''empty.pdf''] \<mapsto> Pdf []] [py ''in'', py ''empty.pdf''] = Inr [] \<and>
   text_page_count [] = 0 \<and>
   is_digital [[py ''in'', py ''empty.pdf''] \<mapsto> Pdf []] [py ''in'', py ''empty.pdf'']"
  by (simp add: fitz_open_def is_digital_def text_page_count_def)

section \<open>Optical extraction\<close>

lemma file_write_fs:
  "fs st p = Some (Text t) \<Longrightarrow> fs (file_write p s st) = (fs st)(p \<mapsto> Text (t @ s))"
  by (simp add: file_write_def)

lemma file_write_other [simp]:
  "events (file_write p s st) = events st" "readers (file_write p s st) = readers st"
  by (simp_all add: file_write_def)

lemma ocr_loop_all:
  assumes "\<forall>i<length doc. readtext env reader (pixmap (doc ! i)) = Inr (frs ! i)"
    and "fs st tp = Some (Text t)" and "page_num \<le> length doc"
  shows "\<exists>st'. ocr_loop env reader tp doc page_num st = (None, st') \<and>
           fs st' = (fs st)(tp \<mapsto> Text (t @ concat (map (\<lambda>i. page_block (Suc i) (frs ! i)) [page_num..<length doc]))) \<and>
           events st' = events st @ map (\<lambda>i. ReadText reader (pixmap (doc ! i))) [page_num..<length doc] \<and>
           readers st' = readers st"
  using assms
proof (induction env reader tp doc page_num st arbitrary: t rule: ocr_loop.induct)
  case (1 env reader tp doc page_num st)
  show ?case
  proof (cases "page_num < length doc")
    case False
    then have "ocr_loop env reader tp doc page_num st = (None, st)"
      by (subst ocr_loop.simps) simp
    with False "1.prems" show ?thesis
      by (simp add: fun_upd_idem)
  next
    case True
    let ?pix = "pixmap (doc ! page_num)"
    let ?st1 = "emit (ReadText reader ?pix) st"
    let ?st2 = "file_write tp (py ''Page '' @ str_nat (page_num + 1) @ py '':'' @ [10]) ?st1"
    let ?st3 = "file_write tp (join (py '' '') (frs ! page_num)) ?st2"
    let ?st4 = "file_write tp ([10] @ replicate 80 45 @ [10]) ?st3"
    have rd: "readtext env reader ?pix = Inr (frs ! page_num)"
      using "1.prems"(1) True by blast
    have f4: "fs ?st4 tp = Some (Text (t @ page_block (Suc page_num) (frs ! page_num)))"
      using "1.prems"(2) by (simp add: file_write_def emit_def page_block_def)
    have fs4: "fs ?st4 = (fs st)(tp \<mapsto> Text (t @ page_block (Suc page_num) (frs ! page_num)))"
      using "1.prems"(2) by (simp add: file_write_def emit_def page_block_def)
    have ev4: "events ?st4 = events st @ [ReadText reader ?pix]" "readers ?st4 = readers st"
      by (simp_all add: emit_def)
    have le: "page_num + 1 \<le> length doc" using True by simp
    from "1.IH" [OF True refl refl refl rd refl refl refl "1.prems"(1) f4 le]
    obtain st' where st': "ocr_loop env reader tp doc (page_num + 1) ?st4 = (None, st')"
      "fs st' = (fs ?st4)(tp \<mapsto> Text ((t @ page_block (Suc page_num) (frs ! page_num)) @
          concat (map (\<lambda>i. page_block (Suc i) (frs ! i)) [page_num + 1..<length doc])))"
      "events st' = events ?st4 @ map (\<lambda>i. ReadText reader (pixmap (doc ! i))) [page_num + 1..<length doc]"
      "readers st' = readers ?st4"
      by blast
    have step: "ocr_loop env reader tp doc page_num st = ocr_loop env reader tp doc (page_num + 1) ?st4"
      using True rd by (subst ocr_loop.simps) (simp add: Let_def)
    have upt: "[page_num..<length doc] = page_num # [page_num + 1..<length doc]"
      using True by (simp add: upt_conv_Cons)
    have e1: "ocr_loop env reader tp doc page_num st = (None, st')"
      using step st'(1) by simp
    have e2: "fs st' = (fs st)(tp \<mapsto> Text (t @ concat (map (\<lambda>i. page_block (Suc i) (frs ! i)) [page_num..<length doc])))"
      unfolding st'(2) fs4 upt by simp
    have e3: "events st' = events st @ map (\<lambda>i. ReadText reader (pixmap (doc ! i))) [page_num..<length doc]"
      unfolding st'(3) ev4 upt by simp
    have e4: "readers st' = readers st"
      unfolding st'(4) ev4 by simp
    show ?thesis using e1 e2 e3 e4 by blast
  qed
qed

lemma blocks_zip:
  "length frs = n \<Longrightarrow>
   map (\<lambda>i. page_block (Suc i) (frs ! i)) [0..<n] = map2 page_block [1..<Suc n] frs"
  by (rule nth_equalityI) (simp_all del: upt_Suc)

text \<open>
  Claim C7. For a scanned document with pages 1..n on which the engine returns fragments for
  every page, optical extraction returns the path of the text file, and the file consists of
  exactly n blocks in ascending order k = 1..n: the marker \<open>Page k:\<close> on a line, the
  fragments of page k joined by spaces, and a line of exactly 80 hyphens.
\<close>

theorem ocr_extract_page_blocks:
  assumes "makedirs_ok env ocr_dir"
    and "fitz_open (fs st) pdf_path = Inr doc"
    and "write_ok env (path_join ocr_dir (ocr_name (basename pdf_path)))"
    and "map (\<lambda>page. readtext env reader (pixmap page)) doc = map Inr frs"
  shows "\<exists>st'. ocr_extract env pdf_path ocr_dir reader st =
                 (Inr (path_join ocr_dir (ocr_name (basename pdf_path))), st') \<and>
               fs st' (path_join ocr_dir (ocr_name (basename pdf_path))) =
                 Some (Text (concat (map2 page_block [1..<Suc (length doc)] frs)))"
proof -
  let ?tp = "path_join ocr_dir (ocr_name (basename pdf_path))"
  let ?st0 = "st\<lparr>fs := (fs st)(?tp \<mapsto> Text [])\<rparr>"
  have len: "length frs = length doc"
    using arg_cong [OF assms(4), of length] by simp
  have rd: "\<forall>i<length doc. readtext env reader (pixmap (doc ! i)) = Inr (frs ! i)"
  proof (intro allI impI)
    fix i assume i: "i < length doc"
    have "map (\<lambda>page. readtext env reader (pixmap page)) doc ! i = map Inr frs ! i"
      by (simp only: assms(4))
    then show "readtext env reader (pixmap (doc ! i)) = Inr (frs ! i)"
      using i len by simp
  qed
  have "fs ?st0 ?tp = Some (Text [])" by simp
  from ocr_loop_all [OF rd this, of 0]
  obtain st' where st': "ocr_loop env reader ?tp doc 0 ?st0 = (None, st')"
    "fs st' = (fs ?st0)(?tp \<mapsto> Text ([] @ concat (map (\<lambda>i. page_block (Suc i) (frs ! i)) [0..<length doc])))"
    by blast
  have "ocr_extract env pdf_path ocr_dir reader st = (Inr ?tp, st')"
    using assms(1-3) st'(1) by (simp add: ocr_extract_def ocr_name_def)
  moreover have "fs st' ?tp = Some (Text (concat (map2 page_block [1..<Suc (length doc)] frs)))"
    unfolding st'(2) using blocks_zip [OF len] by simp
  ultimately show ?thesis by blast
qed

theorem ocr_extract_page_blocks_witness:
  "makedirs_ok ocr_env [py ''ocr''] \<and>
   fitz_open (fs ocr_st) [py ''in'', py ''scan.pdf''] = Inr doc2 \<and>
   write_ok ocr_env (path_join [py ''ocr''] (ocr_name (basename [py ''in'', py ''scan.pdf'']))) \<and>
   map (\<lambda>page. readtext ocr_env 0 (pixmap page)) doc2 = map Inr [[py ''ab'', py ''c''], []] \<and>
   (\<exists>st'. ocr_extract ocr_env [py ''in'', py ''scan.pdf''] [py ''ocr''] 0 ocr_st =
            (Inr [py ''ocr'', py ''scan_ocr.txt''], st') \<and>
          fs st' [py ''ocr'', py ''scan_ocr.txt''] =
            Some (Text (py ''Page 1:'' @ [10] @ py ''ab c'' @ [10] @ replicate 80 45 @ [10] @
                        py ''Page 2:'' @ [10] @ [10] @ replicate 80 45 @ [10])))"
proof -
  have h1: "makedirs_ok ocr_env [py ''ocr'']" by (simp add: ocr_env_def)
  have h2: "fitz_open (fs ocr_st) [py ''in'', py ''scan.pdf''] = Inr doc2"
    by (simp add: fitz_open_def ocr_st_def)
  have h3: "write_ok ocr_env (path_join [py ''ocr''] (ocr_name (basename [py ''in'', py ''scan.pdf''])))"
    by (simp add: ocr_env_def)
  have h4: "map (\<lambda>page. readtext ocr_env 0 (pixmap page)) doc2 = map Inr [[py ''ab'', py ''c''], []]"
    by (simp add: doc2_def ocr_env_def)
  have nm: "path_join [py ''ocr''] (ocr_name (basename [py ''in'', py ''scan.pdf''])) = [py ''ocr'', py ''scan_ocr.txt'']"
    by (simp add: path_join_def ocr_name_def basename_def splitext_root_def py_def)
  have bl: "concat (map2 page_block [1..<Suc (length doc2)] [[py ''ab'', py ''c''], []]) =
      py ''Page 1:'' @ [10] @ py ''ab c'' @ [10] @ replicate 80 45 @ [10] @
                        py ''Page 2:'' @ [10] @ [10] @ replicate 80 45 @ [10]"
    by (simp add: doc2_def page_block_def py_def str_nat.simps upt_rec)
  show ?thesis
    using ocr_extract_page_blocks [OF h1 h2 h3 h4] h1 h2 h3 h4 unfolding nm bl by blast
qed

section \<open>Content classifier\<close>

text \<open>
  Claim C8. A text that is empty or all whitespace gets the label \<open>unknown\<close> and the state
  is unchanged, so the model is not invoked. Any other text invokes the model exactly once
  with the label vocabulary, and when the model answers with a ranking drawn from the
  vocabulary and its scores, the label returned is one label of the closed set.
\<close>

theorem classify_text_contract:
  "(blank text \<longrightarrow> classify_text env text st = (Inr (py ''unknown''), st)) \<and>
   (\<not> blank text \<longrightarrow>
      (\<exists>evs. events (snd (classify_text env text st)) = events st @ CallClassifier text LABELS # evs \<and>
             \<not> list_ex is_model_call evs) \<and>
      (\<forall>r. classifier env text LABELS = Inr r \<and> labels r \<noteq> [] \<and> set (labels r) \<subseteq> set LABELS \<and>
           scores r \<noteq> [] \<longrightarrow>
           (\<exists>l\<in>set LABELS. fst (classify_text env text st) = Inr l)))"
proof (intro conjI impI allI)
  assume "blank text"
  then show "classify_text env text st = (Inr (py ''unknown''), st)"
    by (simp add: classify_text_def blank_def strip_empty_iff)
next
  assume nb: "\<not> blank text"
  then have ne: "strip text \<noteq> []" by (simp add: blank_def strip_empty_iff)
  show "\<exists>evs. events (snd (classify_text env text st)) = events st @ CallClassifier text LABELS # evs \<and>
             \<not> list_ex is_model_call evs"
    using ne
    by (auto simp: classify_text_def emit_def is_model_call_def Let_def
             split: sum.splits list.splits)
next
  fix r
  assume nb: "\<not> blank text"
    and r: "classifier env text LABELS = Inr r \<and> labels r \<noteq> [] \<and> set (labels r) \<subseteq> set LABELS \<and>
           scores r \<noteq> []"
  then have ne: "strip text \<noteq> []" by (simp add: blank_def strip_empty_iff)
  obtain l ls s ss where "labels r = l # ls" "scores r = s # ss"
    using r by (metis list.exhaust)
  then show "\<exists>l\<in>set LABELS. fst (classify_text env text st) = Inr l"
    using ne r by (auto simp: classify_text_def Let_def)
qed

theorem classify_text_contract_witness:
  "blank (py ''  '') \<and>
   classify_text ocr_env (py ''  '') ocr_st = (Inr (py ''unknown''), ocr_st) \<and>
   \<not> blank (py ''tariff 2024'') \<and>
   classifier ocr_env (py ''tariff 2024'') LABELS = Inr \<lparr>labels = LABELS, scores = [90, 10]\<rparr> \<and>
   (\<exists>l\<in>set LABELS. fst (classify_text ocr_env (py ''tariff 2024'') ocr_st) = Inr l) \<and>
   (\<exists>evs. events (snd (classify_text ocr_env (py ''tariff 2024'') ocr_st)) =
            events ocr_st @ CallClassifier (py ''tariff 2024'') LABELS # evs \<and>
          \<not> list_ex is_model_call evs)"
proof -
  have b: "blank (py ''  '')" by (simp add: blank_def isspace_def py_def)
  have nb: "\<not> blank (py ''tariff 2024'')" by (simp add: blank_def isspace_def py_def)
  have r: "classifier ocr_env (py ''tariff 2024'') LABELS = Inr \<lparr>labels = LABELS, scores = [90, 10]\<rparr>"
    by (simp add: ocr_env_def)
  have ok: "labels \<lparr>labels = LABELS, scores = [90, 10]\<rparr> \<noteq> [] \<and>
      set (labels \<lparr>labels = LABELS, scores = [90, 10]\<rparr>) \<subseteq> set LABELS \<and>
      scores \<lparr>labels = LABELS, scores = [90::nat, 10]\<rparr> \<noteq> []"
    by (simp add: LABELS_def)
  show ?thesis
    using classify_text_contract [of "py ''  ''" ocr_env ocr_st]
      classify_text_contract [of "py ''tariff 2024''" ocr_env ocr_st] b nb r ok
    by blast
qed

section \<open>Effects of the processing functions\<close>

text \<open>
  The definitions to unfold when a concrete run is evaluated, and then, function by function,
  what a call changes: the trace, the engine counter and the file system.
\<close>

lemmas run_defs =
  main_def new_reader_def emit_def truthy_def process_pdf_def handle_error_def
  is_digital_def fitz_open_def digital_branch_def scanned_branch_def
  ghostscript_repair_def gs_candidates_def ocr_extract_def ocr_loop.simps file_write_def
  read_text_def classify_and_file_def classify_text_def shutil_move_def shutil_copy_def
  path_join_def basename_def splitext_root_def endswith_def lower_def strip_def isspace_def
  LABELS_def replace_spaces_def str_nat.simps Let_def py_def
  in_dir_def rep_dir_def txt_dir_def err_dir_def blank_page_def text_page_def
  base_env_def retry_env_def refuse_env_def mixed_env_def five_env_def stubborn_env_def
  twin_env_def two_scans_def two_docs_def two_opaque_def locked_first_def mixed_st_def
  rerun_st_def twin_st_def five_st_def

lemmas trace_defs =
  new_events_def started_def failed_def is_construction_def engine_of_def

lemma default_dirs: "dirs_separate in_dir rep_dir txt_dir err_dir" "err_dir \<noteq> []"
  by (simp_all add: dirs_separate_def separate_def in_dir_def rep_dir_def txt_dir_def err_dir_def py_def)

lemma clf_event_inner: "list_all clf_event evs \<Longrightarrow> list_all (inner rd k) evs"
  by (induction evs) (auto simp: clf_event_def inner_def split: event.splits)

lemma classify_text_effect:
  assumes "classify_text env t st = (r, st')"
  shows "fs st' = fs st \<and> readers st' = readers st \<and>
         (\<exists>evs. events st' = events st @ evs \<and> list_all clf_event evs)"
  using assms
  by (auto simp: classify_text_def emit_def clf_event_def Let_def
           split: if_splits sum.splits list.splits)

lemma ghostscript_repair_effect:
  assumes "ghostscript_repair env p rdir st = (r, st')"
  shows "events st' = events st \<and> readers st' = readers st \<and>
         (\<forall>q. q \<noteq> path_join rdir (basename p) \<longrightarrow> fs st' q = fs st q) \<and>
         (\<forall>x. r = Inr x \<longrightarrow> x = path_join rdir (basename p))"
  using assms
  by (auto simp: ghostscript_repair_def Let_def split: if_splits option.splits prod.splits)

lemma shutil_move_effect:
  assumes "shutil_move env src dst st = (x, st')"
  shows "events st' = events st \<and> readers st' = readers st \<and>
         (x \<noteq> None \<longrightarrow> st' = st) \<and>
         (x = None \<longrightarrow> fs st src \<noteq> None \<and> fs st' = move_fs (fs st) src dst)"
  using assms
  by (auto simp: shutil_move_def move_fs_def split: if_splits option.splits)

lemma classify_and_file_effect:
  assumes "classify_and_file env t out_root art st = (x, st')"
  shows "readers st' = readers st \<and>
         (\<exists>evs. events st' = events st @ evs \<and> list_all clf_event evs) \<and>
         (x \<noteq> None \<longrightarrow> fs st' = fs st) \<and>
         (x = None \<longrightarrow> fs st art \<noteq> None \<and>
             (\<exists>l. fs st' = move_fs (fs st) art (out_root @ [l, basename art])))"
proof -
  obtain r st1 where c: "classify_text env t st = (r, st1)" by (cases "classify_text env t st")
  note e1 = classify_text_effect [OF c]
  show ?thesis
  proof (cases r)
    case (Inl e)
    with assms c e1 show ?thesis by (auto simp: classify_and_file_def)
  next
    case (Inr label)
    show ?thesis
    proof (cases "makedirs_ok env (path_join out_root (replace_spaces label))")
      case False
      with assms c e1 Inr show ?thesis by (auto simp: classify_and_file_def)
    next
      case True
      then have m: "shutil_move env art (path_join (path_join out_root (replace_spaces label)) (basename art)) st1 = (x, st')"
        using assms c Inr by (simp add: classify_and_file_def)
      note e2 = shutil_move_effect [OF m]
      have pj: "path_join (path_join out_root (replace_spaces label)) (basename art) = out_root @ [replace_spaces label, basename art]"
        by (simp add: path_join_def)
      have "x = None \<Longrightarrow> \<exists>l. fs st' = move_fs (fs st) art (out_root @ [l, basename art])"
        using e1 e2 unfolding pj by (intro exI [of _ "replace_spaces label"]) simp
      then show ?thesis
        using e1 e2 by auto
    qed
  qed
qed

lemma basename_join [simp]: "basename (path_join d n) = n" "basename (d @ [n]) = n"
  by (simp_all add: basename_def path_join_def)

lemma file_write_frame [simp]:
  "events (file_write p s st) = events st" "readers (file_write p s st) = readers st"
  "q \<noteq> p \<Longrightarrow> fs (file_write p s st) q = fs st q"
  by (simp_all add: file_write_def)

lemma read_event_inner: "list_all (read_event r) evs \<Longrightarrow> list_all (inner (Some r) k) evs"
  "list_all (read_event k) evs \<Longrightarrow> list_all (inner None k) evs"
  by (induction evs) (auto simp: read_event_def inner_def split: event.splits)

lemma ocr_loop_effect:
  "ocr_loop env reader tp doc page_num st = (x, st') \<Longrightarrow>
     readers st' = readers st \<and> (\<forall>q. q \<noteq> tp \<longrightarrow> fs st' q = fs st q) \<and>
     (\<exists>evs. events st' = events st @ evs \<and> list_all (read_event reader) evs)"
proof (induction env reader tp doc page_num st rule: ocr_loop.induct)
  case (1 env reader tp doc page_num st)
  show ?case
  proof (cases "page_num < length doc")
    case False
    with "1.prems" show ?thesis by (subst (asm) ocr_loop.simps) simp
  next
    case True
    note lt = this
    let ?pix = "pixmap (doc ! page_num)"
    let ?st1 = "emit (ReadText reader ?pix) st"
    show ?thesis
    proof (cases "readtext env reader ?pix")
      case (Inl e)
      with "1.prems" lt have "st' = ?st1"
        by (subst (asm) ocr_loop.simps) (simp add: Let_def)
      then show ?thesis by (simp add: emit_def read_event_def)
    next
      case (Inr res)
      let ?st4 = "file_write tp ([10] @ replicate 80 45 @ [10])
                   (file_write tp (join (py '' '') res)
                     (file_write tp (py ''Page '' @ str_nat (page_num + 1) @ py '':'' @ [10]) ?st1))"
      from "1.prems" lt Inr have nxt: "ocr_loop env reader tp doc (page_num + 1) ?st4 = (x, st')"
        by (subst (asm) ocr_loop.simps) (simp add: Let_def)
      from "1.IH" [OF lt refl refl refl Inr refl refl refl nxt]
      obtain evs where ih: "readers st' = readers ?st4" "\<forall>q. q \<noteq> tp \<longrightarrow> fs st' q = fs ?st4 q"
        "events st' = events ?st4 @ evs" "list_all (read_event reader) evs"
        by blast
      have "events st' = events st @ (ReadText reader ?pix # evs)"
        using ih(3) by (simp add: emit_def)
      moreover have "list_all (read_event reader) (ReadText reader ?pix # evs)"
        using ih(4) by (simp add: read_event_def)
      moreover have "readers st' = readers st" "\<forall>q. q \<noteq> tp \<longrightarrow> fs st' q = fs st q"
        using ih(1,2) by (simp_all add: emit_def)
      ultimately show ?thesis by blast
    qed
  qed
qed

lemma ocr_extract_effect:
  assumes "ocr_extract env p odir reader st = (r, st')"
  shows "readers st' = readers st \<and>
         (\<forall>q. q \<noteq> odir @ [ocr_name (basename p)] \<longrightarrow> fs st' q = fs st q) \<and>
         (\<exists>evs. events st' = events st @ evs \<and> list_all (read_event reader) evs) \<and>
         (\<forall>x. r = Inr x \<longrightarrow> x = odir @ [ocr_name (basename p)])"
proof -
  let ?tp = "odir @ [ocr_name (basename p)]"
  show ?thesis
  proof (cases "makedirs_ok env odir \<and> (\<exists>doc. fitz_open (fs st) p = Inr doc) \<and> write_ok env ?tp")
    case False
    then have "st' = st \<and> (\<exists>e. r = Inl e)"
      using assms
      by (auto simp: ocr_extract_def ocr_name_def path_join_def Let_def split: if_splits sum.splits)
    then show ?thesis by auto
  next
    case True
    then obtain doc where doc: "fitz_open (fs st) p = Inr doc" by blast
    let ?st0 = "st\<lparr>fs := (fs st)(?tp \<mapsto> Text [])\<rparr>"
    obtain x st1 where l: "ocr_loop env reader ?tp doc 0 ?st0 = (x, st1)"
      by (cases "ocr_loop env reader ?tp doc 0 ?st0")
    have res: "st' = st1" "r = (case x of Some e \<Rightarrow> Inl e | None \<Rightarrow> Inr ?tp)"
      using assms True doc l
      by (auto simp: ocr_extract_def ocr_name_def path_join_def Let_def split: option.splits)
    from ocr_loop_effect [OF l] show ?thesis
      unfolding res by (auto split: option.splits)
  qed
qed

lemma new_reader_effect:
  assumes "new_reader env st = (r, st')"
  shows "fs st' = fs st \<and> readers st' = readers st + 1 \<and>
         events st' = events st @ [NewReader (readers st) (reader_ok env (readers st))] \<and>
         (\<forall>k. r = Inr k \<longrightarrow> k = readers st \<and> reader_ok env (readers st)) \<and>
         (\<forall>e. r = Inl e \<longrightarrow> \<not> reader_ok env (readers st))"
  using assms by (auto simp: new_reader_def emit_def Let_def split: if_splits)

lemma move_fs_label:
  assumes "f src \<noteq> None"
  shows "move_fs f (d @ [n]) (d @ [l, n]) (d @ [l, n]) = f (d @ [n])"
    and "q \<noteq> d @ [n] \<Longrightarrow> q \<noteq> d @ [l, n] \<Longrightarrow> move_fs f (d @ [n]) (d @ [l, n]) q = f q"
  by (simp_all add: move_fs_def)

lemma digital_branch_effect:
  assumes "digital_branch env p rdir st = (x, st')"
  shows "readers st' = readers st \<and>
         (\<exists>evs. events st' = events st @ LogDigital (basename p) # evs \<and> list_all clf_event evs) \<and>
         (x \<noteq> None \<longrightarrow> (\<forall>q. q \<noteq> rdir @ [basename p] \<longrightarrow> fs st' q = fs st q)) \<and>
         (x = None \<longrightarrow> (\<exists>l. fs st' (rdir @ [l, basename p]) \<noteq> None \<and>
             (\<forall>q. q \<noteq> rdir @ [basename p] \<and> q \<noteq> rdir @ [l, basename p] \<longrightarrow> fs st' q = fs st q)))"
proof -
  let ?f = "basename p"
  let ?st0 = "emit (LogDigital ?f) st"
  obtain r1 st1 where g: "ghostscript_repair env p rdir ?st0 = (r1, st1)"
    by (cases "ghostscript_repair env p rdir ?st0")
  from ghostscript_repair_effect [OF g]
  have e1: "events st1 = events st @ [LogDigital ?f]" "readers st1 = readers st"
    "\<forall>q. q \<noteq> rdir @ [?f] \<longrightarrow> fs st1 q = fs st q" "\<forall>y. r1 = Inr y \<longrightarrow> y = rdir @ [?f]"
    by (simp_all add: emit_def path_join_def)
  have stop: "st' = st1 \<Longrightarrow> x \<noteq> None \<Longrightarrow> ?thesis"
    using e1 by auto
  show ?thesis
  proof (cases r1)
    case (Inl e)
    then have "st' = st1" "x \<noteq> None"
      using assms g by (auto simp: digital_branch_def)
    then show ?thesis by (rule stop)
  next
    case (Inr y)
    then have y: "r1 = Inr (rdir @ [?f])" using e1(4) by simp
    show ?thesis
    proof (cases "fitz_open (fs st1) (rdir @ [?f])")
      case (Inl e)
      then have "st' = st1" "x \<noteq> None"
        using assms g y by (auto simp: digital_branch_def)
      then show ?thesis by (rule stop)
    next
      case (Inr doc)
      note d = y Inr
    have c: "classify_and_file env (join [10] (map get_text doc)) rdir (rdir @ [?f]) st1 = (x, st')"
      using assms g d by (simp add: digital_branch_def)
    from classify_and_file_effect [OF c]
    obtain evs where e2: "readers st' = readers st1" "events st' = events st1 @ evs"
      "list_all clf_event evs" "x \<noteq> None \<longrightarrow> fs st' = fs st1"
      "x = None \<longrightarrow> fs st1 (rdir @ [?f]) \<noteq> None \<and>
          (\<exists>l. fs st' = move_fs (fs st1) (rdir @ [?f]) (rdir @ [l, ?f]))"
      by auto
    have "x = None \<longrightarrow> (\<exists>l. fs st' (rdir @ [l, ?f]) \<noteq> None \<and>
             (\<forall>q. q \<noteq> rdir @ [?f] \<and> q \<noteq> rdir @ [l, ?f] \<longrightarrow> fs st' q = fs st q))"
    proof
      assume "x = None"
      with e2(5) obtain l where l: "fs st1 (rdir @ [?f]) \<noteq> None"
        "fs st' = move_fs (fs st1) (rdir @ [?f]) (rdir @ [l, ?f])" by blast
      have "fs st' (rdir @ [l, ?f]) \<noteq> None"
        unfolding l(2) using l(1) by (simp add: move_fs_label)
      moreover have "\<forall>q. q \<noteq> rdir @ [?f] \<and> q \<noteq> rdir @ [l, ?f] \<longrightarrow> fs st' q = fs st q"
        unfolding l(2) using l(1) e1(3) by (simp add: move_fs_label)
      ultimately show "\<exists>l. fs st' (rdir @ [l, ?f]) \<noteq> None \<and>
             (\<forall>q. q \<noteq> rdir @ [?f] \<and> q \<noteq> rdir @ [l, ?f] \<longrightarrow> fs st' q = fs st q)"
        by blast
    qed
    moreover have "\<exists>evs. events st' = events st @ LogDigital ?f # evs \<and> list_all clf_event evs"
      using e1(1) e2(2,3) by simp
    moreover have "x \<noteq> None \<longrightarrow> (\<forall>q. q \<noteq> rdir @ [?f] \<longrightarrow> fs st' q = fs st q)"
      using e2(4) e1(3) by simp
    ultimately show ?thesis using e2(1) e1(2) by simp
    qed
  qed
qed

lemma emit_fields [simp]:
  "fs (emit e st) = fs st" "readers (emit e st) = readers st" "events (emit e st) = events st @ [e]"
  by (simp_all add: emit_def)

lemma get_reader_effect:
  assumes "(case rd of None \<Rightarrow> new_reader env s | Some r \<Rightarrow> (Inr r, s)) = (r0, st1)"
  shows "fs st1 = fs s \<and> readers st1 = (if rd = None then readers s + 1 else readers s) \<and>
         (\<exists>evs. events st1 = events s @ evs \<and> list_all (inner rd (readers s)) evs) \<and>
         (\<forall>r. r0 = Inr r \<longrightarrow> r = (case rd of Some r' \<Rightarrow> r' | None \<Rightarrow> readers s))"
proof (cases rd)
  case None
  then have n: "new_reader env s = (r0, st1)" using assms by simp
  have "list_all (inner rd (readers s)) [NewReader (readers s) (reader_ok env (readers s))]"
    using None by (simp add: inner_def)
  then show ?thesis
    using new_reader_effect [OF n] None by auto
next
  case (Some r)
  then have "r0 = Inr r" "st1 = s" using assms by simp_all
  then show ?thesis using Some by simp
qed

lemma scanned_branch_effect:
  assumes "scanned_branch env p odir rd st = (x, st')"
  shows "readers st' = (if rd = None then readers st + 1 else readers st) \<and>
         (\<exists>evs. events st' = events st @ LogScanned (basename p) # evs \<and>
                list_all (inner rd (readers st)) evs) \<and>
         (x \<noteq> None \<longrightarrow> (\<forall>q. q \<noteq> odir @ [ocr_name (basename p)] \<longrightarrow> fs st' q = fs st q)) \<and>
         (x = None \<longrightarrow> (\<exists>l. fs st' (odir @ [l, ocr_name (basename p)]) \<noteq> None \<and>
             (\<forall>q. q \<noteq> odir @ [ocr_name (basename p)] \<and> q \<noteq> odir @ [l, ocr_name (basename p)] \<longrightarrow>
                  fs st' q = fs st q)))"
proof -
  let ?goal = ?thesis
  let ?f = "basename p"
  let ?tp = "odir @ [ocr_name ?f]"
  let ?st0 = "emit (LogScanned ?f) st"
  let ?k = "readers st"
  obtain r0 st1 where n: "(case rd of None \<Rightarrow> new_reader env ?st0 | Some r \<Rightarrow> (Inr r, ?st0)) = (r0, st1)"
    by (cases "case rd of None \<Rightarrow> new_reader env ?st0 | Some r \<Rightarrow> (Inr r, ?st0)")
  have e0: "fs st1 = fs st" "readers st1 = (if rd = None then ?k + 1 else ?k)"
    "\<exists>evs. events st1 = events st @ LogScanned ?f # evs \<and> list_all (inner rd ?k) evs"
    "\<forall>r. r0 = Inr r \<longrightarrow> r = (case rd of Some r' \<Rightarrow> r' | None \<Rightarrow> ?k)"
    using get_reader_effect [OF n] by (simp_all cong: if_cong option.case_cong)
  from e0(3)
  obtain evs0 where ev0: "events st1 = events st @ LogScanned ?f # evs0" "list_all (inner rd ?k) evs0"
    by blast
  have stop: "\<And>s evs. st' = s \<Longrightarrow> x \<noteq> None \<Longrightarrow> readers s = readers st1 \<Longrightarrow>
      (\<forall>q. q \<noteq> ?tp \<longrightarrow> fs s q = fs st q) \<Longrightarrow> events s = events st1 @ evs \<Longrightarrow>
      list_all (inner rd ?k) evs \<Longrightarrow> ?goal"
  proof -
    fix s evs
    assume a: "st' = s" "x \<noteq> None" "readers s = readers st1"
      "\<forall>q. q \<noteq> ?tp \<longrightarrow> fs s q = fs st q" "events s = events st1 @ evs"
      "list_all (inner rd ?k) evs"
    have "events st' = events st @ LogScanned ?f # (evs0 @ evs)"
      using a(1,5) ev0(1) by simp
    moreover have "list_all (inner rd ?k) (evs0 @ evs)" using ev0(2) a(6) by simp
    ultimately have "\<exists>evs. events st' = events st @ LogScanned ?f # evs \<and> list_all (inner rd ?k) evs"
      by blast
    then show ?goal using a(1-4) e0(2) by auto
  qed
  show ?thesis
  proof (cases r0)
    case (Inl e)
    then have "st' = st1" "x \<noteq> None"
      using assms n by (auto simp: scanned_branch_def)
    then show ?thesis using stop [of st1 "[]"] e0(1) by simp
  next
    case (Inr r)
    then have r: "r = (case rd of Some r' \<Rightarrow> r' | None \<Rightarrow> ?k)" using e0(4) by blast
    have body: "(case ocr_extract env p odir r st1 of
             (Inl e, st2) \<Rightarrow> (Some e, st2)
           | (Inr txt_path, st2) \<Rightarrow>
               (case read_text (fs st2) txt_path of
                  Inl e \<Rightarrow> (Some e, st2)
                | Inr text_content \<Rightarrow> classify_and_file env text_content odir txt_path st2)) = (x, st')"
      using assms n Inr by (simp add: scanned_branch_def)
    obtain r2 st2 where o: "ocr_extract env p odir r st1 = (r2, st2)"
      by (cases "ocr_extract env p odir r st1")
    from ocr_extract_effect [OF o]
    obtain evs1 where e1: "readers st2 = readers st1" "\<forall>q. q \<noteq> ?tp \<longrightarrow> fs st2 q = fs st q"
      "events st2 = events st1 @ evs1" "list_all (read_event r) evs1" "\<forall>y. r2 = Inr y \<longrightarrow> y = ?tp"
      using e0(1) by auto
    have in1: "list_all (inner rd ?k) evs1"
      using e1(4) r read_event_inner(1) [of _ evs1 ?k] read_event_inner(2) [of ?k evs1] by (cases rd) auto
    show ?thesis
    proof (cases r2)
      case (Inl e)
      then have "st' = st2" "x \<noteq> None"
        using body o by auto
      then show ?thesis using stop [of st2 evs1] e1 in1 by simp
    next
      case (Inr y)
      then have y: "r2 = Inr ?tp" using e1(5) by simp
      show ?thesis
      proof (cases "read_text (fs st2) ?tp")
        case (Inl e)
        then have "st' = st2" "x \<noteq> None"
          using body o y by auto
        then show ?thesis using stop [of st2 evs1] e1 in1 by simp
      next
        case (Inr t)
        have c: "classify_and_file env t odir ?tp st2 = (x, st')"
          using body o y Inr by simp
        from classify_and_file_effect [OF c]
        obtain evs2 where e2: "readers st' = readers st2" "events st' = events st2 @ evs2"
          "list_all clf_event evs2" "x \<noteq> None \<longrightarrow> fs st' = fs st2"
          "x = None \<longrightarrow> fs st2 ?tp \<noteq> None \<and>
              (\<exists>l. fs st' = move_fs (fs st2) ?tp (odir @ [l, ocr_name ?f]))"
          by auto
        have "x = None \<longrightarrow> (\<exists>l. fs st' (odir @ [l, ocr_name ?f]) \<noteq> None \<and>
               (\<forall>q. q \<noteq> ?tp \<and> q \<noteq> odir @ [l, ocr_name ?f] \<longrightarrow> fs st' q = fs st q))"
        proof
          assume "x = None"
          with e2(5) obtain l where l: "fs st2 ?tp \<noteq> None"
            "fs st' = move_fs (fs st2) ?tp (odir @ [l, ocr_name ?f])" by blast
          have "fs st' (odir @ [l, ocr_name ?f]) \<noteq> None"
            unfolding l(2) using l(1) by (simp add: move_fs_label)
          moreover have "\<forall>q. q \<noteq> ?tp \<and> q \<noteq> odir @ [l, ocr_name ?f] \<longrightarrow> fs st' q = fs st q"
            unfolding l(2) using l(1) e1(2) by (simp add: move_fs_label)
          ultimately show "\<exists>l. fs st' (odir @ [l, ocr_name ?f]) \<noteq> None \<and>
               (\<forall>q. q \<noteq> ?tp \<and> q \<noteq> odir @ [l, ocr_name ?f] \<longrightarrow> fs st' q = fs st q)"
            by blast
        qed
        moreover have "events st' = events st @ LogScanned ?f # (evs0 @ evs1 @ evs2)"
          using ev0 e1(3) e2(2) by simp
        moreover have "list_all (inner rd ?k) (evs0 @ evs1 @ evs2)"
          using ev0(2) in1 e2(3) clf_event_inner by simp
        moreover have "x \<noteq> None \<longrightarrow> (\<forall>q. q \<noteq> ?tp \<longrightarrow> fs st' q = fs st q)"
          using e2(4) e1(2) by simp
        moreover have "readers st' = (if rd = None then ?k + 1 else ?k)"
          using e2(1) e1(1) e0(2) by simp
        ultimately show ?thesis by blast
      qed
    qed
  qed
qed

section \<open>One document\<close>

text \<open>
  \<open>process_pdf\<close> is the body of its \<open>try\<close> followed, when the body raised, by the
  handler. The first lemmas say what each of them does to the trace, the engine counter and
  the file system.
\<close>

lemma handle_error_effect:
  assumes "handle_error env p ed e st = (x, st')"
  shows "readers st' = readers st \<and> events st' = events st @ [LogError (basename p) e] \<and>
         (truthy ed \<and> \<not> makedirs_ok env (the ed) \<longrightarrow> x = Some OSError \<and> fs st' = fs st) \<and>
         (\<not> (truthy ed \<and> \<not> makedirs_ok env (the ed)) \<longrightarrow> x = None \<and>
            fs st' = (if truthy ed \<and> copy_ok env p (the ed @ [basename p]) \<and> fs st p \<noteq> None
                      then (fs st)(the ed @ [basename p] := fs st p) else fs st))"
  using assms
  by (auto simp: handle_error_def shutil_copy_def path_join_def Let_def
           split: if_splits option.splits)

lemma process_pdf_body:
  assumes "process_pdf env p rdir odir ed rd st = (x, st')"
  obtains xb stb where
    "(if is_digital (fs st) p then digital_branch env p rdir st
      else scanned_branch env p odir rd st) = (xb, stb)"
    "xb = None \<Longrightarrow> x = None \<and> st' = stb"
    "\<And>e. xb = Some e \<Longrightarrow> handle_error env p ed e stb = (x, st')"
proof -
  obtain xb stb where b: "(if is_digital (fs st) p then digital_branch env p rdir st
      else scanned_branch env p odir rd st) = (xb, stb)"
    by (cases "if is_digital (fs st) p then digital_branch env p rdir st
      else scanned_branch env p odir rd st")
  have "xb = None \<Longrightarrow> x = None \<and> st' = stb"
    using assms b by (simp add: process_pdf_def)
  moreover have "\<And>e. xb = Some e \<Longrightarrow> handle_error env p ed e stb = (x, st')"
    using assms b by (simp add: process_pdf_def)
  ultimately show ?thesis using that b by blast
qed

lemma body_effect:
  assumes "(if is_digital (fs st) p then digital_branch env p rdir st
            else scanned_branch env p odir rd st) = (xb, stb)"
  shows "readers stb = (if is_digital (fs st) p \<or> rd \<noteq> None then readers st else readers st + 1)"
    and "\<exists>start body. events stb = events st @ start # body \<and>
           (start = LogDigital (basename p) \<or> start = LogScanned (basename p)) \<and>
           list_all (inner rd (readers st)) body"
    and "xb \<noteq> None \<Longrightarrow> q \<noteq> rdir @ [basename p] \<Longrightarrow> q \<noteq> odir @ [ocr_name (basename p)] \<Longrightarrow>
           fs stb q = fs st q"
    and "xb = None \<Longrightarrow>
           (\<exists>l. fs stb (rdir @ [l, basename p]) \<noteq> None \<and>
                (\<forall>q. q \<noteq> rdir @ [basename p] \<and> q \<noteq> rdir @ [l, basename p] \<longrightarrow> fs stb q = fs st q)) \<or>
           (\<exists>l. fs stb (odir @ [l, ocr_name (basename p)]) \<noteq> None \<and>
                (\<forall>q. q \<noteq> odir @ [ocr_name (basename p)] \<and> q \<noteq> odir @ [l, ocr_name (basename p)] \<longrightarrow>
                     fs stb q = fs st q))"
proof -
  show "readers stb = (if is_digital (fs st) p \<or> rd \<noteq> None then readers st else readers st + 1)"
    using assms digital_branch_effect [of env p rdir st xb stb]
      scanned_branch_effect [of env p odir rd st xb stb]
    by (cases "is_digital (fs st) p") auto
  show "\<exists>start body. events stb = events st @ start # body \<and>
           (start = LogDigital (basename p) \<or> start = LogScanned (basename p)) \<and>
           list_all (inner rd (readers st)) body"
  proof (cases "is_digital (fs st) p")
    case True
    then have "digital_branch env p rdir st = (xb, stb)" using assms by simp
    from digital_branch_effect [OF this] obtain evs where
      "events stb = events st @ LogDigital (basename p) # evs" "list_all clf_event evs" by blast
    then show ?thesis using clf_event_inner by blast
  next
    case False
    then have "scanned_branch env p odir rd st = (xb, stb)" using assms by simp
    from scanned_branch_effect [OF this] show ?thesis by blast
  qed
  show "xb \<noteq> None \<Longrightarrow> q \<noteq> rdir @ [basename p] \<Longrightarrow> q \<noteq> odir @ [ocr_name (basename p)] \<Longrightarrow>
           fs stb q = fs st q"
    using assms digital_branch_effect [of env p rdir st xb stb]
      scanned_branch_effect [of env p odir rd st xb stb]
    by (cases "is_digital (fs st) p") simp_all
  show "xb = None \<Longrightarrow>
           (\<exists>l. fs stb (rdir @ [l, basename p]) \<noteq> None \<and>
                (\<forall>q. q \<noteq> rdir @ [basename p] \<and> q \<noteq> rdir @ [l, basename p] \<longrightarrow> fs stb q = fs st q)) \<or>
           (\<exists>l. fs stb (odir @ [l, ocr_name (basename p)]) \<noteq> None \<and>
                (\<forall>q. q \<noteq> odir @ [ocr_name (basename p)] \<and> q \<noteq> odir @ [l, ocr_name (basename p)] \<longrightarrow>
                     fs stb q = fs st q))"
    using assms digital_branch_effect [of env p rdir st xb stb]
      scanned_branch_effect [of env p odir rd st xb stb]
    by (cases "is_digital (fs st) p") simp_all
qed

section \<open>The trace of the batch loop\<close>

text \<open>
  One call of \<open>process_pdf\<close> adds exactly one processing message, at most one error
  message, and (when a reader was handed in) no construction and only reads by that reader.
  The loop of \<open>main\<close> dispatches the PDF names within the cap, in order, and counts them.
\<close>

lemma dispatched_append [simp]: "dispatched (xs @ ys) = dispatched xs @ dispatched ys"
  by (simp add: dispatched_def)

lemma dispatched_simps [simp]:
  "dispatched [] = []" "dispatched (e # evs) = started e @ dispatched evs"
  by (simp_all add: dispatched_def)

lemma failures_simps [simp]:
  "failures [] = []" "failures (e # evs) = failed e @ failures evs"
  by (simp_all add: failures_def)

lemma failures_append [simp]: "failures (xs @ ys) = failures xs @ failures ys"
  by (simp add: failures_def)

lemma inner_quiet:
  "list_all (inner rd k) evs \<Longrightarrow> dispatched evs = [] \<and> failures evs = []"
  by (induction evs)
     (auto simp: inner_def started_def failed_def split: event.splits)

lemma inner_engine_ok:
  "list_all (inner (Some r) k) evs \<Longrightarrow> list_all (engine_ok r) evs"
  by (induction evs) (auto simp: inner_def engine_ok_def split: event.splits)

lemma process_pdf_events:
  assumes "process_pdf env p rdir odir ed rd st = (x, st')"
  shows "\<exists>evs. events st' = events st @ evs \<and> dispatched evs = [basename p] \<and>
           set (failures evs) \<subseteq> {basename p} \<and>
           (\<forall>r. rd = Some r \<longrightarrow> list_all (engine_ok r) evs)"
proof (rule process_pdf_body [OF assms])
  fix xb stb
  assume b: "(if is_digital (fs st) p then digital_branch env p rdir st
         else scanned_branch env p odir rd st) = (xb, stb)"
    and ok: "xb = None \<Longrightarrow> x = None \<and> st' = stb"
    and err: "\<And>e. xb = Some e \<Longrightarrow> handle_error env p ed e stb = (x, st')"
  from body_effect(2) [OF b] obtain start body where
    sb: "events stb = events st @ start # body"
      "start = LogDigital (basename p) \<or> start = LogScanned (basename p)"
      "list_all (inner rd (readers st)) body"
    by blast
  have q: "dispatched body = []" "failures body = []"
    using inner_quiet [OF sb(3)] by simp_all
  have s1: "started start = [basename p]" "failed start = []" "\<And>r. engine_ok r start"
    using sb(2) by (auto simp: started_def failed_def engine_ok_def)
  have eng: "\<forall>r. rd = Some r \<longrightarrow> list_all (engine_ok r) body"
    using sb(3) inner_engine_ok by blast
  show ?thesis
  proof (cases xb)
    case None
    then have "events st' = events st @ ([start] @ body)" using ok sb(1) by simp
    moreover have "dispatched ([start] @ body) = [basename p]" "failures ([start] @ body) = []"
      using q s1 by simp_all
    moreover have "\<forall>r. rd = Some r \<longrightarrow> list_all (engine_ok r) ([start] @ body)"
      using eng s1(3) by simp
    ultimately show ?thesis by fastforce
  next
    case (Some e)
    from handle_error_effect [OF err [OF Some]]
    have "events st' = events st @ ([start] @ body @ [LogError (basename p) e])"
      using sb(1) by simp
    moreover have "dispatched ([start] @ body @ [LogError (basename p) e]) = [basename p]"
      using q s1 by (simp add: started_def)
    moreover have "set (failures ([start] @ body @ [LogError (basename p) e])) \<subseteq> {basename p}"
      using q s1 by (simp add: failed_def)
    moreover have "\<forall>r. rd = Some r \<longrightarrow> list_all (engine_ok r) ([start] @ body @ [LogError (basename p) e])"
      using eng s1(3) by (simp add: engine_ok_def)
    ultimately show ?thesis by blast
  qed
qed

lemma process_pdf_returns:
  assumes "process_pdf env p rdir odir ed rd st = (x, st')"
    and "truthy ed \<longrightarrow> makedirs_ok env (the ed)"
  shows "x = None"
proof (rule process_pdf_body [OF assms(1)])
  fix xb stb
  assume ok: "xb = None \<Longrightarrow> x = None \<and> st' = stb"
    and err: "\<And>e. xb = Some e \<Longrightarrow> handle_error env p ed e stb = (x, st')"
  show "x = None"
  proof (cases xb)
    case None
    then show ?thesis using ok by simp
  next
    case (Some e)
    from handle_error_effect [OF err [OF Some]] assms(2) show ?thesis by blast
  qed
qed

lemma cap_from_skip:
  "\<not> (case limit of None \<Rightarrow> False | Some l \<Rightarrow> count \<ge> l) \<Longrightarrow>
   cap_from limit count (f # names) = f # cap_from limit (count + 1) names"
proof (cases limit)
  case None
  then show ?thesis by (simp add: cap_from_def)
next
  case (Some l)
  assume "\<not> (case limit of None \<Rightarrow> False | Some l \<Rightarrow> count \<ge> l)"
  with Some have "count < l" by simp
  then have "nat (l - count) = Suc (nat (l - (count + 1)))" by simp
  then show ?thesis using Some by (simp add: cap_from_def)
qed

lemma cap_from_stop:
  "(case limit of None \<Rightarrow> False | Some l \<Rightarrow> count \<ge> l) \<Longrightarrow> cap_from limit count names = []"
  by (cases limit) (simp_all add: cap_from_def)

lemma main_loop_events:
  assumes "main_loop env idir rdir odir ed limit rd names count st = (x, c', st')"
    and "truthy ed \<longrightarrow> makedirs_ok env (the ed)"
  shows "x = None \<and>
         (\<exists>evs. events st' = events st @ evs \<and>
            dispatched evs = cap_from limit count (filter is_pdf_name names) \<and>
            set (failures evs) \<subseteq> set (dispatched evs) \<and>
            c' = count + int (length (dispatched evs)) \<and>
            (\<forall>r. rd = Some r \<longrightarrow> list_all (engine_ok r) evs))"
  using assms(1)
proof (induction names arbitrary: count st)
  case Nil
  then have "x = None" "c' = count" "st' = st" by simp_all
  moreover have "cap_from limit count [] = []" by (cases limit) (simp_all add: cap_from_def)
  ultimately show ?case by simp
next
  case (Cons f names)
  show ?case
  proof (cases "is_pdf_name f")
    case False
    then have "main_loop env idir rdir odir ed limit rd names count st = (x, c', st')"
      using Cons.prems by (simp add: is_pdf_name_def)
    from Cons.IH [OF this] False show ?thesis by simp
  next
    case True
    note pdf = this
    show ?thesis
    proof (cases "case limit of None \<Rightarrow> False | Some l \<Rightarrow> count \<ge> l")
      case True
      then have "x = None" "c' = count" "st' = st"
        using Cons.prems pdf by (simp_all add: is_pdf_name_def)
      then show ?thesis
        using cap_from_stop [OF True] pdf by simp
    next
      case False
      obtain x1 st1 where p: "process_pdf env (path_join idir f) rdir odir ed rd st = (x1, st1)"
        by (cases "process_pdf env (path_join idir f) rdir odir ed rd st")
      have x1: "x1 = None" using process_pdf_returns [OF p assms(2)] .
      have nxt: "main_loop env idir rdir odir ed limit rd names (count + 1) st1 = (x, c', st')"
        using Cons.prems pdf False p x1 by (simp add: is_pdf_name_def)
      from process_pdf_events [OF p] obtain evs1 where
        e1: "events st1 = events st @ evs1" "dispatched evs1 = [f]" "set (failures evs1) \<subseteq> {f}"
          "\<forall>r. rd = Some r \<longrightarrow> list_all (engine_ok r) evs1"
        by auto
      from Cons.IH [OF nxt] obtain evs2 where
        e2: "x = None" "events st' = events st1 @ evs2"
          "dispatched evs2 = cap_from limit (count + 1) (filter is_pdf_name names)"
          "set (failures evs2) \<subseteq> set (dispatched evs2)"
          "c' = count + 1 + int (length (dispatched evs2))"
          "\<forall>r. rd = Some r \<longrightarrow> list_all (engine_ok r) evs2"
        by blast
      have "events st' = events st @ (evs1 @ evs2)" using e1(1) e2(2) by simp
      moreover have "dispatched (evs1 @ evs2) = cap_from limit count (filter is_pdf_name (f # names))"
        using e1(2) e2(3) pdf cap_from_skip [OF False] by simp
      moreover have "set (failures (evs1 @ evs2)) \<subseteq> set (dispatched (evs1 @ evs2))"
        using e1(2,3) e2(4) by auto
      moreover have "c' = count + int (length (dispatched (evs1 @ evs2)))"
        using e1(2) e2(5) by simp
      moreover have "\<forall>r. rd = Some r \<longrightarrow> list_all (engine_ok r) (evs1 @ evs2)"
        using e1(4) e2(6) by simp
      ultimately show ?thesis using e2(1) by blast
    qed
  qed
qed

section \<open>The file system after one document\<close>

text \<open>
  After one document the file system is in the filed or in the errored shape. With separate
  directories this gives the frame of a call (only the paths of that document can change)
  and, from a state where the document has no output yet, exactly one outcome.
\<close>

lemma process_pdf_cases:
  assumes "process_pdf env p rdir odir ed rd st = (x, st')"
  shows "\<exists>evs. events st' = events st @ evs \<and> dispatched evs = [basename p] \<and>
           (\<forall>r. rd = Some r \<longrightarrow> list_all (engine_ok r) evs) \<and>
           ((failures evs = [] \<and> x = None \<and> filed_fs rdir odir (basename p) (fs st) (fs st')) \<or>
            (failures evs = [basename p] \<and> errored_fs env p rdir odir ed (fs st) x (fs st')))"
proof (rule process_pdf_body [OF assms])
  fix xb stb
  assume b: "(if is_digital (fs st) p then digital_branch env p rdir st
         else scanned_branch env p odir rd st) = (xb, stb)"
    and ok: "xb = None \<Longrightarrow> x = None \<and> st' = stb"
    and err: "\<And>e. xb = Some e \<Longrightarrow> handle_error env p ed e stb = (x, st')"
  let ?n = "basename p"
  from body_effect(2) [OF b] obtain start body where
    sb: "events stb = events st @ start # body"
      "start = LogDigital ?n \<or> start = LogScanned ?n"
      "list_all (inner rd (readers st)) body"
    by blast
  have q: "dispatched body = []" "failures body = []"
    using inner_quiet [OF sb(3)] by simp_all
  have s1: "started start = [?n]" "failed start = []" "\<And>r. engine_ok r start"
    using sb(2) by (auto simp: started_def failed_def engine_ok_def)
  have eng: "\<forall>r. rd = Some r \<longrightarrow> list_all (engine_ok r) body"
    using sb(3) inner_engine_ok by blast
  show ?thesis
  proof (cases xb)
    case None
    have "events st' = events st @ (start # body)" using ok [OF None] sb(1) by simp
    moreover have "dispatched (start # body) = [?n]" "failures (start # body) = []"
      using q s1 by simp_all
    moreover have "\<forall>r. rd = Some r \<longrightarrow> list_all (engine_ok r) (start # body)"
      using eng s1(3) by simp
    moreover have "filed_fs rdir odir ?n (fs st) (fs st')"
      unfolding filed_fs_def using body_effect(4) [OF b None] ok [OF None] by simp
    ultimately show ?thesis using ok [OF None] by blast
  next
    case (Some e)
    note h = handle_error_effect [OF err [OF Some]]
    have mid: "\<forall>q. q \<noteq> rdir @ [?n] \<and> q \<noteq> odir @ [ocr_name ?n] \<longrightarrow> fs stb q = fs st q"
      using body_effect(3) [OF b] Some by simp
    have "events st' = events st @ (start # body @ [LogError ?n e])"
      using h sb(1) by simp
    moreover have "dispatched (start # body @ [LogError ?n e]) = [?n]"
      using q s1 by (simp add: started_def)
    moreover have "failures (start # body @ [LogError ?n e]) = [?n]"
      using q s1 by (simp add: failed_def)
    moreover have "\<forall>r. rd = Some r \<longrightarrow> list_all (engine_ok r) (start # body @ [LogError ?n e])"
      using eng s1(3) by (simp add: engine_ok_def)
    moreover have "errored_fs env p rdir odir ed (fs st) x (fs st')"
      unfolding errored_fs_def
    proof (intro exI [of _ "fs stb"] conjI)
      show "\<forall>q. q \<noteq> rdir @ [?n] \<and> q \<noteq> odir @ [ocr_name ?n] \<longrightarrow> fs stb q = fs st q" by (rule mid)
      show "if truthy ed \<and> \<not> makedirs_ok env (the ed) then x = Some OSError \<and> fs st' = fs stb
        else x = None \<and>
             fs st' = (if truthy ed \<and> copy_ok env p (the ed @ [?n]) \<and> fs stb p \<noteq> None
                       then (fs stb)(the ed @ [?n] := fs stb p) else fs stb)"
        using h by (cases "truthy ed \<and> \<not> makedirs_ok env (the ed)") simp_all
    qed
    ultimately show ?thesis by blast
  qed
qed

lemma separate_append: "separate a b \<Longrightarrow> a @ xs \<noteq> b @ ys"
  unfolding separate_def prefix_def by (metis append_eq_append_conv2)

lemma separate_sym: "separate a b \<Longrightarrow> separate b a"
  by (auto simp: separate_def)

lemma errored_fs_mid:
  assumes "errored_fs env p rdir odir ed f x f'"
  obtains mid where
    "\<forall>q. q \<noteq> rdir @ [basename p] \<and> q \<noteq> odir @ [ocr_name (basename p)] \<longrightarrow> mid q = f q"
    "f' = mid \<or> f' = mid(the ed @ [basename p] := mid p)"
proof -
  from assms obtain mid where
    m: "\<forall>q. q \<noteq> rdir @ [basename p] \<and> q \<noteq> odir @ [ocr_name (basename p)] \<longrightarrow> mid q = f q"
    and c: "if truthy ed \<and> \<not> makedirs_ok env (the ed) then x = Some OSError \<and> f' = mid
         else x = None \<and>
              f' = (if truthy ed \<and> copy_ok env p (the ed @ [basename p]) \<and> mid p \<noteq> None
                    then mid(the ed @ [basename p] := mid p) else mid)"
    unfolding errored_fs_def by blast
  have "f' = mid \<or> f' = mid(the ed @ [basename p] := mid p)"
    using c by (simp split: if_splits)
  then show ?thesis using m that by blast
qed

lemma process_pdf_frame:
  assumes "process_pdf env p rdir odir (Some edir) rd st = (x, st')"
    and "q \<notin> touches rdir odir edir (basename p)"
  shows "fs st' q = fs st q"
proof -
  let ?n = "basename p"
  have nq: "q \<noteq> rdir @ [?n]" "q \<noteq> odir @ [ocr_name ?n]" "q \<noteq> edir @ [?n]"
    "\<And>l. q \<noteq> rdir @ [l, ?n]" "\<And>l. q \<noteq> odir @ [l, ocr_name ?n]"
    using assms(2) by (auto simp: touches_def)
  from process_pdf_cases [OF assms(1)]
  have "filed_fs rdir odir ?n (fs st) (fs st') \<or> errored_fs env p rdir odir (Some edir) (fs st) x (fs st')"
    by blast
  then show ?thesis
  proof
    assume "filed_fs rdir odir ?n (fs st) (fs st')"
    then show ?thesis unfolding filed_fs_def using nq by blast
  next
    assume "errored_fs env p rdir odir (Some edir) (fs st) x (fs st')"
    then obtain mid where m: "\<forall>q. q \<noteq> rdir @ [?n] \<and> q \<noteq> odir @ [ocr_name ?n] \<longrightarrow> mid q = fs st q"
      "fs st' = mid \<or> fs st' = mid(edir @ [?n] := mid p)"
      by (rule errored_fs_mid) simp
    have "fs st' q = mid q" using m(2) nq(3) by auto
    then show ?thesis using m(1) nq by simp
  qed
qed

lemma touches_input:
  assumes "dirs_separate idir rdir odir edir"
  shows "idir @ xs \<notin> touches rdir odir edir n"
proof -
  have "separate idir rdir" "separate idir odir" "separate idir edir"
    using assms by (simp_all add: dirs_separate_def)
  then show ?thesis
    unfolding touches_def using separate_append [of idir _ xs] by auto
qed

lemma touches_disjoint:
  assumes "dirs_separate idir rdir odir edir" and "n \<noteq> g" and "ocr_name n \<noteq> ocr_name g"
    and "q \<in> touches rdir odir edir n"
  shows "q \<notin> touches rdir odir edir g"
proof -
  have s: "separate rdir odir" "separate rdir edir" "separate odir edir"
    using assms(1) by (simp_all add: dirs_separate_def)
  note a = separate_append [OF s(1)] separate_append [OF s(2)] separate_append [OF s(3)]
    separate_append [OF separate_sym [OF s(1)]] separate_append [OF separate_sym [OF s(2)]]
    separate_append [OF separate_sym [OF s(3)]]
  show ?thesis
    using assms(2-4) a unfolding touches_def by auto
qed

lemma outputs_in_touches:
  "rdir @ [l, n] \<in> touches rdir odir edir n" "odir @ [l, ocr_name n] \<in> touches rdir odir edir n"
  "edir @ [n] \<in> touches rdir odir edir n"
  by (simp_all add: touches_def)

lemma dirs_separate_neq:
  assumes "dirs_separate idir rdir odir edir"
  shows "idir @ xs \<noteq> rdir @ ys" "idir @ xs \<noteq> odir @ ys" "idir @ xs \<noteq> edir @ ys"
    "rdir @ xs \<noteq> odir @ ys" "rdir @ xs \<noteq> edir @ ys" "odir @ xs \<noteq> edir @ ys"
    "rdir @ xs \<noteq> idir @ ys" "odir @ xs \<noteq> idir @ ys" "edir @ xs \<noteq> idir @ ys"
    "odir @ xs \<noteq> rdir @ ys" "edir @ xs \<noteq> rdir @ ys" "edir @ xs \<noteq> odir @ ys"
  using assms separate_append separate_sym unfolding dirs_separate_def by blast+

lemma dirs_separate_neq0:
  assumes "dirs_separate idir rdir odir edir"
  shows "idir \<noteq> rdir" "idir \<noteq> odir" "idir \<noteq> edir" "rdir \<noteq> odir" "rdir \<noteq> edir" "odir \<noteq> edir"
    "rdir \<noteq> idir" "odir \<noteq> idir" "edir \<noteq> idir" "odir \<noteq> rdir" "edir \<noteq> rdir" "edir \<noteq> odir"
  using dirs_separate_neq [OF assms, of "[]" "[]"] by simp_all


lemma process_pdf_quarantine:
  assumes p: "process_pdf env (idir @ [n]) rdir odir (Some edir) rd st = (x, st')"
    and ev: "events st' = events st @ evs"
    and sep: "dirs_separate idir rdir odir edir"
    and fl: "failures evs \<noteq> []"
    and ok: "edir \<noteq> []" "makedirs_ok env edir" "copy_ok env (idir @ [n]) (edir @ [n])"
      "fs st (idir @ [n]) \<noteq> None"
  shows "fs st' (edir @ [n]) = fs st (idir @ [n])"
proof -
  note ne = dirs_separate_neq [OF sep] dirs_separate_neq0 [OF sep]
  from process_pdf_cases [OF p] obtain evs' where
    e: "events st' = events st @ evs'"
    and cs: "(failures evs' = [] \<and> x = None \<and> filed_fs rdir odir n (fs st) (fs st')) \<or>
            (failures evs' = [n] \<and> errored_fs env (idir @ [n]) rdir odir (Some edir) (fs st) x (fs st'))"
    by auto
  have "evs' = evs" using e ev by simp
  then have "errored_fs env (idir @ [n]) rdir odir (Some edir) (fs st) x (fs st')"
    using cs fl by auto
  then obtain mid where
    m: "\<forall>q. q \<noteq> rdir @ [n] \<and> q \<noteq> odir @ [ocr_name n] \<longrightarrow> mid q = fs st q"
    and h: "if truthy (Some edir) \<and> \<not> makedirs_ok env (the (Some edir))
            then x = Some OSError \<and> fs st' = mid
            else x = None \<and>
              fs st' = (if truthy (Some edir) \<and> copy_ok env (idir @ [n]) (the (Some edir) @ [basename (idir @ [n])]) \<and>
                           mid (idir @ [n]) \<noteq> None
                        then mid(the (Some edir) @ [basename (idir @ [n])] := mid (idir @ [n])) else mid)"
    unfolding errored_fs_def by auto
  have fr: "\<And>q. q \<noteq> rdir @ [n] \<Longrightarrow> q \<noteq> odir @ [ocr_name n] \<Longrightarrow> mid q = fs st q"
    using m by blast
  have mp: "mid (idir @ [n]) = fs st (idir @ [n])" by (simp add: fr ne)
  have "fs st' = mid(edir @ [n] := fs st (idir @ [n]))"
    using h ok mp by (simp add: truthy_def)
  then show ?thesis by simp
qed

section \<open>The file system after the batch loop\<close>

text \<open>
  The frame, the quarantine copy and the outcome of each dispatched document carry over
  from one call to the whole loop, by induction on the directory listing: a later document
  does not write the paths of an earlier one.
\<close>

lemma main_loop_frame:
  assumes "main_loop env idir rdir odir (Some edir) limit rd names count st = (x, c', st')"
    and "\<forall>g\<in>set (cap_from limit count (filter is_pdf_name names)). q \<notin> touches rdir odir edir g"
  shows "fs st' q = fs st q"
  using assms
proof (induction names arbitrary: count st)
  case Nil
  then show ?case by simp
next
  case (Cons f names)
  show ?case
  proof (cases "is_pdf_name f")
    case False
    then have "main_loop env idir rdir odir (Some edir) limit rd names count st = (x, c', st')"
      using Cons.prems(1) by (simp add: is_pdf_name_def)
    from Cons.IH [OF this] Cons.prems(2) False show ?thesis by simp
  next
    case True
    note pdf = this
    show ?thesis
    proof (cases "case limit of None \<Rightarrow> False | Some l \<Rightarrow> count \<ge> l")
      case True
      then show ?thesis using Cons.prems(1) pdf by (simp add: is_pdf_name_def)
    next
      case False
      obtain x1 st1 where p: "process_pdf env (path_join idir f) rdir odir (Some edir) rd st = (x1, st1)"
        by (cases "process_pdf env (path_join idir f) rdir odir (Some edir) rd st")
      have d: "cap_from limit count (filter is_pdf_name (f # names)) =
               f # cap_from limit (count + 1) (filter is_pdf_name names)"
        using pdf cap_from_skip [OF False] by simp
      have "q \<notin> touches rdir odir edir (basename (path_join idir f))"
        using Cons.prems(2) d by simp
      from process_pdf_frame [OF p this] have f1: "fs st1 q = fs st q" .
      show ?thesis
      proof (cases x1)
        case (Some e)
        then have "st' = st1" using Cons.prems(1) pdf False p by (simp add: is_pdf_name_def)
        then show ?thesis using f1 by simp
      next
        case None
        then have nxt: "main_loop env idir rdir odir (Some edir) limit rd names (count + 1) st1 = (x, c', st')"
          using Cons.prems(1) pdf False p by (simp add: is_pdf_name_def)
        have "\<forall>g\<in>set (cap_from limit (count + 1) (filter is_pdf_name names)). q \<notin> touches rdir odir edir g"
          using Cons.prems(2) d by simp
        from Cons.IH [OF nxt this] f1 show ?thesis by simp
      qed
    qed
  qed
qed

lemma quarantine_not_touched:
  assumes "dirs_separate idir rdir odir edir" and "n \<noteq> g"
  shows "edir @ [n] \<notin> touches rdir odir edir g"
  using assms(2) dirs_separate_neq [OF assms(1)] dirs_separate_neq0 [OF assms(1)]
  by (auto simp: touches_def)

lemma main_loop_quarantine:
  assumes "main_loop env idir rdir odir (Some edir) limit rd names count st = (x, c', st')"
    and "events st' = events st @ evs"
    and sep: "dirs_separate idir rdir odir edir"
    and mk: "edir \<noteq> []" "makedirs_ok env edir"
    and "distinct (cap_from limit count (filter is_pdf_name names))"
    and "n \<in> set (failures evs)"
    and "copy_ok env (idir @ [n]) (edir @ [n])" "fs st (idir @ [n]) \<noteq> None"
  shows "fs st' (edir @ [n]) = fs st (idir @ [n])"
  using assms(1,2,6-9)
proof (induction names arbitrary: count st evs)
  case Nil
  then show ?case by simp
next
  case (Cons f names)
  have tm: "truthy (Some edir) \<longrightarrow> makedirs_ok env (the (Some edir))" using mk by simp
  show ?case
  proof (cases "is_pdf_name f")
    case False
    then have "main_loop env idir rdir odir (Some edir) limit rd names count st = (x, c', st')"
      using Cons.prems(1) by (simp add: is_pdf_name_def)
    from Cons.IH [OF this Cons.prems(2)] Cons.prems(3-6) False show ?thesis by simp
  next
    case True
    note pdf = this
    show ?thesis
    proof (cases "case limit of None \<Rightarrow> False | Some l \<Rightarrow> count \<ge> l")
      case True
      then have "st' = st" using Cons.prems(1) pdf by (simp add: is_pdf_name_def)
      then have "evs = []" using Cons.prems(2) by simp
      then show ?thesis using Cons.prems(4) by simp
    next
      case False
      obtain x1 st1 where p: "process_pdf env (idir @ [f]) rdir odir (Some edir) rd st = (x1, st1)"
        by (cases "process_pdf env (idir @ [f]) rdir odir (Some edir) rd st")
      have x1: "x1 = None" using process_pdf_returns [OF p tm] .
      have nxt: "main_loop env idir rdir odir (Some edir) limit rd names (count + 1) st1 = (x, c', st')"
        using Cons.prems(1) pdf False p x1 by (simp add: is_pdf_name_def path_join_def)
      have d: "cap_from limit count (filter is_pdf_name (f # names)) =
               f # cap_from limit (count + 1) (filter is_pdf_name names)"
        using pdf cap_from_skip [OF False] by simp
      let ?D = "cap_from limit (count + 1) (filter is_pdf_name names)"
      have dD: "distinct ?D" "f \<notin> set ?D" using Cons.prems(3) d by simp_all
      from process_pdf_cases [OF p] obtain evs1 where
        e1: "events st1 = events st @ evs1" "failures evs1 = [] \<or> failures evs1 = [f]"
        by auto
      from main_loop_events [OF nxt tm] obtain evs2 where
        e2: "events st' = events st1 @ evs2" "dispatched evs2 = ?D"
          "set (failures evs2) \<subseteq> set (dispatched evs2)"
        by blast
      have evs: "evs = evs1 @ evs2" using Cons.prems(2) e1(1) e2(1) by simp
      have inp: "fs st1 (idir @ [n]) = fs st (idir @ [n])"
        using process_pdf_frame [OF p] touches_input [OF sep] by simp
      show ?thesis
      proof (cases "n \<in> set (failures evs2)")
        case True
        from Cons.IH [OF nxt e2(1) dD(1) True Cons.prems(5)] Cons.prems(6) inp
        show ?thesis by simp
      next
        case False
        then have nf: "n = f" "failures evs1 \<noteq> []"
          using Cons.prems(4) evs e1(2) by auto
        have q1: "fs st1 (edir @ [f]) = fs st (idir @ [f])"
          using process_pdf_quarantine [OF p e1(1) sep nf(2) mk] Cons.prems(5,6) nf(1) by simp
        have "\<forall>g\<in>set ?D. edir @ [f] \<notin> touches rdir odir edir g"
        proof
          fix g assume "g \<in> set ?D"
          then have "f \<noteq> g" using dD(2) by auto
          then show "edir @ [f] \<notin> touches rdir odir edir g"
            by (rule quarantine_not_touched [OF sep])
        qed
        from main_loop_frame [OF nxt this] q1 nf(1) show ?thesis by simp
      qed
    qed
  qed
qed



section \<open>Properties of the batch run\<close>

text \<open>
  \<open>main\<close> either stops at its directory checks, or constructs the engine, runs the loop
  and prints its closing message.
\<close>

lemma new_events_append: "events st' = events st @ evs \<Longrightarrow> new_events st st' = evs"
  by (simp add: new_events_def)

lemma capped_cap_from: "cap_from limit 0 names = capped limit names"
  by (cases limit) (simp_all add: cap_from_def capped_def)

lemma main_no_setup:
  assumes "\<not> setup_ok env idir rdir odir ed" and "main env idir rdir odir ed limit st = (x, st')"
  shows "fs st' = fs st \<and> readers st' = readers st \<and>
         (new_events st st' = [] \<or> new_events st st' = [LogNoInput idir])"
  using assms by (auto simp: setup_ok_def main_def new_events_def split: if_splits)

lemma main_setup:
  assumes "setup_ok env idir rdir odir ed" and "main env idir rdir odir ed limit st = (x, st')"
  obtains st1 c' st2 evs where
    "main_loop env idir rdir odir ed limit
       (if reader_ok env (readers st) then Some (readers st) else None)
       (sort (listdir env idir)) 0 st1 = (None, c', st2)"
    "fs st1 = fs st" "events st1 = events st @ [NewReader (readers st) (reader_ok env (readers st))]"
    "readers st1 = readers st + 1"
    "x = None" "fs st' = fs st2" "events st' = events st2 @ [LogCompleted]"
proof -
  have tm: "truthy ed \<longrightarrow> makedirs_ok env (the ed)" using assms(1) by (simp add: setup_ok_def)
  obtain r st1 where n: "new_reader env st = (r, st1)" by (cases "new_reader env st")
  note e = new_reader_effect [OF n]
  let ?rd = "case r of Inl _ \<Rightarrow> None | Inr k \<Rightarrow> Some k"
  have rd: "?rd = (if reader_ok env (readers st) then Some (readers st) else None)"
    using e by (cases r) auto
  obtain xl c' st2 where l: "main_loop env idir rdir odir ed limit ?rd (sort (listdir env idir)) 0 st1 = (xl, c', st2)"
    by (cases "main_loop env idir rdir odir ed limit ?rd (sort (listdir env idir)) 0 st1") auto
  have xl: "xl = None" using main_loop_events [OF l tm] by simp
  have m: "main env idir rdir odir ed limit st = (None, emit LogCompleted st2)"
    using assms(1) n l xl by (simp add: main_def setup_ok_def)
  then have "x = None" "st' = emit LogCompleted st2" using assms(2) by simp_all
  then show ?thesis
    using that [of st1 c' st2] l xl rd e by simp
qed

lemma engine_ok_trace:
  "list_all (engine_ok r) evs \<Longrightarrow> constructions evs = [] \<and> set (engines_used evs) \<subseteq> {r}"
  by (induction evs)
     (auto simp: engine_ok_def constructions_def engines_used_def is_construction_def engine_of_def
           split: event.splits)

lemma main_events:
  assumes "setup_ok env idir rdir odir ed" and "main env idir rdir odir ed limit st = (x, st')"
  shows "\<exists>evs. new_events st st' =
           NewReader (readers st) (reader_ok env (readers st)) # evs @ [LogCompleted] \<and>
           dispatched evs = capped limit (pdf_files env idir) \<and>
           set (failures evs) \<subseteq> set (dispatched evs) \<and>
           (reader_ok env (readers st) \<longrightarrow> list_all (engine_ok (readers st)) evs)"
proof (rule main_setup [OF assms])
  fix st1 c' st2
  assume l: "main_loop env idir rdir odir ed limit
       (if reader_ok env (readers st) then Some (readers st) else None)
       (sort (listdir env idir)) 0 st1 = (None, c', st2)"
    and s1: "events st1 = events st @ [NewReader (readers st) (reader_ok env (readers st))]"
    and s2: "events st' = events st2 @ [LogCompleted]"
  have tm: "truthy ed \<longrightarrow> makedirs_ok env (the ed)" using assms(1) by (simp add: setup_ok_def)
  from main_loop_events [OF l tm] obtain evs where
    e: "events st2 = events st1 @ evs"
      "dispatched evs = cap_from limit 0 (filter is_pdf_name (sort (listdir env idir)))"
      "set (failures evs) \<subseteq> set (dispatched evs)"
      "\<forall>r. (if reader_ok env (readers st) then Some (readers st) else None) = Some r \<longrightarrow>
           list_all (engine_ok r) evs"
    by blast
  have "events st' = events st @ (NewReader (readers st) (reader_ok env (readers st)) # evs @ [LogCompleted])"
    using s1 s2 e(1) by simp
  then have "new_events st st' = NewReader (readers st) (reader_ok env (readers st)) # evs @ [LogCompleted]"
    by (rule new_events_append)
  moreover have "dispatched evs = capped limit (pdf_files env idir)"
    using e(2) by (simp add: capped_cap_from pdf_files_def)
  moreover have "reader_ok env (readers st) \<longrightarrow> list_all (engine_ok (readers st)) evs"
    using e(4) by simp
  ultimately show ?thesis using e(3) by blast
qed

lemma trace_projections [simp]:
  "constructions (e # evs) = (if is_construction e then e # constructions evs else constructions evs)"
  "constructions (xs @ ys) = constructions xs @ constructions ys"
  "constructions [] = []"
  "engines_used (e # evs) = engine_of e @ engines_used evs"
  "engines_used (xs @ ys) = engines_used xs @ engines_used ys"
  "engines_used [] = []"
  by (simp_all add: constructions_def engines_used_def)

lemma event_kinds [simp]:
  "is_construction (NewReader k b)" "\<not> is_construction LogCompleted" "\<not> is_construction (LogNoInput p)"
  "engine_of (NewReader k b) = []" "engine_of LogCompleted = []" "engine_of (LogNoInput p) = []"
  "started (NewReader k b) = []" "started LogCompleted = []" "started (LogNoInput p) = []"
  "failed (NewReader k b) = []" "failed LogCompleted = []" "failed (LogNoInput p) = []"
  by (simp_all add: is_construction_def engine_of_def started_def failed_def)

text \<open>
  Claim C3, as amended. In a batch run whose first construction of the recognition engine
  (the one made by \<open>main\<close>) succeeds, the engine is constructed at most once, and every
  page of every scanned document is read by that instance.
\<close>

theorem engine_constructed_once:
  assumes "reader_ok env (readers st)" and "main env idir rdir odir ed limit st = (x, st')"
  shows "(constructions (new_events st st') = [] \<or>
          constructions (new_events st st') = [NewReader (readers st) True]) \<and>
         set (engines_used (new_events st st')) \<subseteq> {readers st}"
proof (cases "setup_ok env idir rdir odir ed")
  case False
  from main_no_setup [OF False assms(2)] show ?thesis by auto
next
  case True
  from main_events [OF True assms(2)] assms(1) obtain evs where
    e: "new_events st st' = NewReader (readers st) True # evs @ [LogCompleted]"
      "list_all (engine_ok (readers st)) evs"
    by auto
  from engine_ok_trace [OF e(2)] show ?thesis unfolding e(1) by simp
qed

theorem engine_constructed_once_witness:
  "reader_ok base_env (readers two_scans) \<and>
   constructions (new_events two_scans
      (snd (main base_env in_dir rep_dir txt_dir (Some err_dir) (Some 50) two_scans))) =
     [NewReader 0 True] \<and>
   engines_used (new_events two_scans
      (snd (main base_env in_dir rep_dir txt_dir (Some err_dir) (Some 50) two_scans))) = [0, 0]"
proof -
  have h: "reader_ok base_env (readers two_scans)" by (simp add: base_env_def)
  have u: "engines_used (new_events two_scans
      (snd (main base_env in_dir rep_dir txt_dir (Some err_dir) (Some 50) two_scans))) = [0, 0]"
    by (simp add: run_defs trace_defs)
  have c: "constructions (new_events two_scans
      (snd (main base_env in_dir rep_dir txt_dir (Some err_dir) (Some 50) two_scans))) \<noteq> []"
    by (simp add: run_defs trace_defs)
  from engine_constructed_once [OF h, of in_dir rep_dir txt_dir "Some err_dir" "Some 50"
      "fst (main base_env in_dir rep_dir txt_dir (Some err_dir) (Some 50) two_scans)"
      "snd (main base_env in_dir rep_dir txt_dir (Some err_dir) (Some 50) two_scans)"]
  show ?thesis using h u c by (simp add: two_scans_def)
qed

text \<open>
  Claim C3, as stated, fails when the construction in \<open>main\<close> fails: \<open>process_pdf\<close>
  then constructs an engine of its own for each scanned document, so a run over two scanned
  documents constructs two engines, and each document is read by a different instance.
\<close>

theorem engine_constructed_once_counterexample:
  "\<not> reader_ok retry_env 0 \<and>
   constructions (events (snd (main retry_env in_dir rep_dir txt_dir (Some err_dir) (Some 50) two_scans))) =
     [NewReader 0 False, NewReader 1 True, NewReader 2 True] \<and>
   engines_used (events (snd (main retry_env in_dir rep_dir txt_dir (Some err_dir) (Some 50) two_scans))) =
     [1, 2]"
  by (simp add: run_defs trace_defs)

text \<open>
  Claim C9. In a run that gets past its directory checks, the documents handed to
  \<open>process_pdf\<close> are exactly the first N PDF names of the sorted listing when the cap is
  N (all of them without a cap), and the run ends normally. A PDF beyond the cap is left
  untouched: its source file and every path its processing could write are as they were
  (for separate directories, distinct directory entries and distinct OCR file names).
  With cap 2 and five PDFs, two are processed and three are untouched.
\<close>

theorem cap_first_n:
  assumes "setup_ok env idir rdir odir ed" and "main env idir rdir odir ed limit st = (x, st')"
  shows "x = None \<and> dispatched (new_events st st') = capped limit (pdf_files env idir) \<and>
         (\<forall>edir n q. ed = Some edir \<and> dirs_separate idir rdir odir edir \<and>
              distinct (listdir env idir) \<and> inj_on ocr_name (set (pdf_files env idir)) \<and>
              n \<in> set (pdf_files env idir) \<and> n \<notin> set (capped limit (pdf_files env idir)) \<and>
              (q = idir @ [n] \<or> q \<in> touches rdir odir edir n) \<longrightarrow> fs st' q = fs st q)"
proof (intro conjI allI impI)
  show "x = None" by (rule main_setup [OF assms])
  from main_events [OF assms] show "dispatched (new_events st st') = capped limit (pdf_files env idir)"
    by auto
next
  fix edir n q
  assume a: "ed = Some edir \<and> dirs_separate idir rdir odir edir \<and>
              distinct (listdir env idir) \<and> inj_on ocr_name (set (pdf_files env idir)) \<and>
              n \<in> set (pdf_files env idir) \<and> n \<notin> set (capped limit (pdf_files env idir)) \<and>
              (q = idir @ [n] \<or> q \<in> touches rdir odir edir n)"
  then have sep: "dirs_separate idir rdir odir edir" and ed: "ed = Some edir" by simp_all
  let ?D = "capped limit (pdf_files env idir)"
  have sub: "set ?D \<subseteq> set (pdf_files env idir)"
    by (cases limit) (auto simp: capped_def dest: in_set_takeD)
  have nt: "\<forall>g\<in>set ?D. q \<notin> touches rdir odir edir g"
  proof
    fix g assume g: "g \<in> set ?D"
    show "q \<notin> touches rdir odir edir g"
    proof (cases "q = idir @ [n]")
      case True
      then show ?thesis using touches_input [OF sep] by simp
    next
      case False
      then have q: "q \<in> touches rdir odir edir n" using a by simp
      have "n \<noteq> g" using a g by auto
      moreover have "ocr_name n \<noteq> ocr_name g"
        using a g sub \<open>n \<noteq> g\<close> by (meson inj_onD subsetD)
      ultimately show ?thesis using touches_disjoint [OF sep _ _ q] by blast
    qed
  qed
  show "fs st' q = fs st q"
  proof (rule main_setup [OF assms])
    fix st1 c' st2
    assume l: "main_loop env idir rdir odir ed limit
         (if reader_ok env (readers st) then Some (readers st) else None)
         (sort (listdir env idir)) 0 st1 = (None, c', st2)"
      and f: "fs st1 = fs st" "fs st' = fs st2"
    have "\<forall>g\<in>set (cap_from limit 0 (filter is_pdf_name (sort (listdir env idir)))). q \<notin> touches rdir odir edir g"
      using nt by (simp add: capped_cap_from pdf_files_def)
    from main_loop_frame [OF l [unfolded ed] this] f show ?thesis by simp
  qed
qed

theorem cap_first_n_witness:
  "setup_ok five_env in_dir rep_dir txt_dir (Some err_dir) \<and>
   pdf_files five_env in_dir = [py ''B.PDF'', py ''a.pdf'', py ''c.pdf'', py ''d.pdf'', py ''e.pdf''] \<and>
   fst (main five_env in_dir rep_dir txt_dir (Some err_dir) (Some 2) five_st) = None \<and>
   dispatched (new_events five_st
      (snd (main five_env in_dir rep_dir txt_dir (Some err_dir) (Some 2) five_st))) =
     [py ''B.PDF'', py ''a.pdf''] \<and>
   dirs_separate in_dir rep_dir txt_dir err_dir \<and> distinct (listdir five_env in_dir) \<and>
   inj_on ocr_name (set (pdf_files five_env in_dir)) \<and>
   fs (snd (main five_env in_dir rep_dir txt_dir (Some err_dir) (Some 2) five_st))
     (in_dir @ [py ''c.pdf'']) = Some (Pdf [blank_page]) \<and>
   fs (snd (main five_env in_dir rep_dir txt_dir (Some err_dir) (Some 2) five_st))
     (err_dir @ [py ''d.pdf'']) = None \<and>
   fs (snd (main five_env in_dir rep_dir txt_dir (Some err_dir) (Some 2) five_st))
     (rep_dir @ [py ''static_data'', py ''e.pdf'']) = None"
proof -
  let ?r = "main five_env in_dir rep_dir txt_dir (Some err_dir) (Some 2) five_st"
  have m: "?r = (fst ?r, snd ?r)" by simp
  have s: "setup_ok five_env in_dir rep_dir txt_dir (Some err_dir)"
    by (simp add: setup_ok_def five_env_def base_env_def)
  have dl: "distinct (listdir five_env in_dir)" by (simp add: five_env_def base_env_def py_def)
  have pf: "pdf_files five_env in_dir = [py ''B.PDF'', py ''a.pdf'', py ''c.pdf'', py ''d.pdf'', py ''e.pdf'']"
    by (simp add: pdf_files_def is_pdf_name_def endswith_def lower_def five_env_def base_env_def py_def)
  have cap: "capped (Some 2) (pdf_files five_env in_dir) = [py ''B.PDF'', py ''a.pdf'']"
    unfolding pf by (simp add: capped_def)
  have inj: "inj_on ocr_name (set (pdf_files five_env in_dir))"
    unfolding pf by (simp add: ocr_name_def splitext_root_def py_def)
  have i0: "fs five_st (in_dir @ [py ''c.pdf'']) = Some (Pdf [blank_page])"
    "fs five_st (err_dir @ [py ''d.pdf'']) = None"
    "fs five_st (rep_dir @ [py ''static_data'', py ''e.pdf'']) = None"
    by (simp_all add: five_st_def in_dir_def err_dir_def rep_dir_def py_def)
  have mem: "py ''c.pdf'' \<in> set (pdf_files five_env in_dir)" "py ''c.pdf'' \<notin> set (capped (Some 2) (pdf_files five_env in_dir))"
    "py ''d.pdf'' \<in> set (pdf_files five_env in_dir)" "py ''d.pdf'' \<notin> set (capped (Some 2) (pdf_files five_env in_dir))"
    "py ''e.pdf'' \<in> set (pdf_files five_env in_dir)" "py ''e.pdf'' \<notin> set (capped (Some 2) (pdf_files five_env in_dir))"
    using cap unfolding pf by (simp_all add: py_def)
  note t = cap_first_n [OF s m]
  have d: "fst ?r = None" "dispatched (new_events five_st (snd ?r)) = [py ''B.PDF'', py ''a.pdf'']"
    using t cap by simp_all
  have u: "\<And>n q. n \<in> set (pdf_files five_env in_dir) \<Longrightarrow>
      n \<notin> set (capped (Some 2) (pdf_files five_env in_dir)) \<Longrightarrow>
      q = in_dir @ [n] \<or> q \<in> touches rep_dir txt_dir err_dir n \<Longrightarrow> fs (snd ?r) q = fs five_st q"
    using t default_dirs(1) dl inj by blast
  have "fs (snd ?r) (in_dir @ [py ''c.pdf'']) = fs five_st (in_dir @ [py ''c.pdf''])"
    using u [OF mem(1,2)] by blast
  moreover have "fs (snd ?r) (err_dir @ [py ''d.pdf'']) = fs five_st (err_dir @ [py ''d.pdf''])"
    using u [OF mem(3,4)] outputs_in_touches(3) by blast
  moreover have "fs (snd ?r) (rep_dir @ [py ''static_data'', py ''e.pdf'']) =
      fs five_st (rep_dir @ [py ''static_data'', py ''e.pdf''])"
    using u [OF mem(5,6)] outputs_in_touches(1) by blast
  ultimately show ?thesis using s pf d default_dirs(1) dl inj i0 by simp
qed

text \<open>
  Claim C10. The counter of the loop goes up by one for every document handed to
  \<open>process_pdf\<close>, whether its processing failed or not: the final count is the number of
  dispatched documents, those are the first N PDF names under cap N, and every failed
  document is among them. So when the first N documents all fail, no later one is
  processed.
\<close>

theorem failures_count_toward_cap:
  assumes "truthy ed \<longrightarrow> makedirs_ok env (the ed)"
    and "main_loop env idir rdir odir ed (Some cap) rd names 0 st = (x, c', st')"
  shows "x = None \<and> c' = int (length (dispatched (new_events st st'))) \<and>
         dispatched (new_events st st') = take (nat cap) (filter is_pdf_name names) \<and>
         set (failures (new_events st st')) \<subseteq> set (dispatched (new_events st st'))"
proof -
  from main_loop_events [OF assms(2,1)] obtain evs where
    e: "x = None" "events st' = events st @ evs"
      "dispatched evs = cap_from (Some cap) 0 (filter is_pdf_name names)"
      "set (failures evs) \<subseteq> set (dispatched evs)" "c' = 0 + int (length (dispatched evs))"
    by blast
  have "new_events st st' = evs" using e(2) by (rule new_events_append)
  then show ?thesis using e by (simp add: cap_from_def)
qed

theorem failures_count_toward_cap_witness:
  "makedirs_ok base_env err_dir \<and>
   fst (main_loop base_env in_dir rep_dir txt_dir (Some err_dir) (Some 1) (Some 0)
          [py ''a.pdf'', py ''b.pdf''] 0 two_opaque) = None \<and>
   fst (snd (main_loop base_env in_dir rep_dir txt_dir (Some err_dir) (Some 1) (Some 0)
          [py ''a.pdf'', py ''b.pdf''] 0 two_opaque)) = 1 \<and>
   dispatched (new_events two_opaque
     (snd (snd (main_loop base_env in_dir rep_dir txt_dir (Some err_dir) (Some 1) (Some 0)
          [py ''a.pdf'', py ''b.pdf''] 0 two_opaque)))) = [py ''a.pdf''] \<and>
   failures (new_events two_opaque
     (snd (snd (main_loop base_env in_dir rep_dir txt_dir (Some err_dir) (Some 1) (Some 0)
          [py ''a.pdf'', py ''b.pdf''] 0 two_opaque)))) = [py ''a.pdf'']"
proof -
  let ?r = "main_loop base_env in_dir rep_dir txt_dir (Some err_dir) (Some 1) (Some 0)
          [py ''a.pdf'', py ''b.pdf''] 0 two_opaque"
  have m: "?r = (fst ?r, fst (snd ?r), snd (snd ?r))" by simp
  have mk: "makedirs_ok base_env err_dir" by (simp add: base_env_def)
  then have tm: "truthy (Some err_dir) \<longrightarrow> makedirs_ok base_env (the (Some err_dir))" by simp
  have fl: "failures (new_events two_opaque (snd (snd ?r))) = [py ''a.pdf'']"
    by (simp add: run_defs trace_defs)
  have tk: "take (nat 1) (filter is_pdf_name [py ''a.pdf'', py ''b.pdf'']) = [py ''a.pdf'']"
    by (simp add: is_pdf_name_def endswith_def lower_def py_def)
  from failures_count_toward_cap [OF tm m]
  show ?thesis using mk fl tk by simp
qed

lemma distinct_capped:
  "distinct (listdir env idir) \<Longrightarrow>
   distinct (cap_from limit 0 (filter is_pdf_name (sort (listdir env idir))))"
  by (cases limit) (simp_all add: cap_from_def distinct_take)

lemma main_input_unchanged:
  assumes "main env idir rdir odir (Some edir) limit st = (x, st')"
    and sep: "dirs_separate idir rdir odir edir"
  shows "fs st' (idir @ xs) = fs st (idir @ xs)"
proof (cases "setup_ok env idir rdir odir (Some edir)")
  case False
  from main_no_setup [OF False assms(1)] show ?thesis by simp
next
  case True
  show ?thesis
  proof (rule main_setup [OF True assms(1)])
    fix st1 c' st2
    assume l: "main_loop env idir rdir odir (Some edir) limit
         (if reader_ok env (readers st) then Some (readers st) else None)
         (sort (listdir env idir)) 0 st1 = (None, c', st2)"
      and f: "fs st1 = fs st" "fs st' = fs st2"
    have "\<forall>g\<in>set (cap_from limit 0 (filter is_pdf_name (sort (listdir env idir)))).
            idir @ xs \<notin> touches rdir odir edir g"
      using touches_input [OF sep] by blast
    from main_loop_frame [OF l this] f show ?thesis by simp
  qed
qed

text \<open>
  Claim C4, as amended. With an error directory configured and the directories separate, for
  every document whose processing raised: the batch went on (the run ends normally and
  every document within the cap was handed to \<open>process_pdf\<close>) and the source file in the
  input directory is as it was, whether the copy into the error directory succeeded or not;
  and when that copy is not refused and the source can be read, the error directory holds
  the original content under the document's name after the run.
\<close>

theorem failed_document_quarantined:
  assumes m: "main env idir rdir odir (Some edir) limit st = (x, st')"
    and ne: "edir \<noteq> []"
    and sep: "dirs_separate idir rdir odir edir"
    and dl: "distinct (listdir env idir)"
    and n: "n \<in> set (failures (new_events st st'))"
  shows "x = None \<and>
         dispatched (new_events st st') = capped limit (pdf_files env idir) \<and>
         fs st' (idir @ [n]) = fs st (idir @ [n]) \<and>
         (copy_ok env (idir @ [n]) (edir @ [n]) \<and> fs st (idir @ [n]) \<noteq> None \<longrightarrow>
            fs st' (edir @ [n]) = fs st (idir @ [n]))"
proof (cases "setup_ok env idir rdir odir (Some edir)")
  case False
  from main_no_setup [OF False m] n show ?thesis by auto
next
  case True
  then have mk: "makedirs_ok env edir" using ne by (simp add: setup_ok_def truthy_def)
  have d: "dispatched (new_events st st') = capped limit (pdf_files env idir)"
    using main_events [OF True m] by auto
  have inp: "fs st' (idir @ [n]) = fs st (idir @ [n])"
    using main_input_unchanged [OF m sep] by simp
  have "x = None \<and>
        (copy_ok env (idir @ [n]) (edir @ [n]) \<and> fs st (idir @ [n]) \<noteq> None \<longrightarrow>
           fs st' (edir @ [n]) = fs st (idir @ [n]))"
  proof (rule main_setup [OF True m])
    fix st1 c' st2
    assume l: "main_loop env idir rdir odir (Some edir) limit
         (if reader_ok env (readers st) then Some (readers st) else None)
         (sort (listdir env idir)) 0 st1 = (None, c', st2)"
      and f: "fs st1 = fs st" "fs st' = fs st2"
      and s1: "events st1 = events st @ [NewReader (readers st) (reader_ok env (readers st))]"
      and s2: "events st' = events st2 @ [LogCompleted]"
      and x: "x = None"
    have tm: "truthy (Some edir) \<longrightarrow> makedirs_ok env (the (Some edir))" using mk by simp
    from main_loop_events [OF l tm] obtain evs where e: "events st2 = events st1 @ evs" by blast
    have "events st' = events st @ (NewReader (readers st) (reader_ok env (readers st)) # evs @ [LogCompleted])"
      using s1 s2 e by simp
    then have "new_events st st' = NewReader (readers st) (reader_ok env (readers st)) # evs @ [LogCompleted]"
      by (rule new_events_append)
    then have nf: "n \<in> set (failures evs)" using n by simp
    have "copy_ok env (idir @ [n]) (edir @ [n]) \<and> fs st (idir @ [n]) \<noteq> None \<longrightarrow>
          fs st' (edir @ [n]) = fs st (idir @ [n])"
    proof
      assume a: "copy_ok env (idir @ [n]) (edir @ [n]) \<and> fs st (idir @ [n]) \<noteq> None"
      then have cp: "copy_ok env (idir @ [n]) (edir @ [n])"
        and src: "fs st1 (idir @ [n]) \<noteq> None" using f by simp_all
      from main_loop_quarantine [OF l e sep ne mk distinct_capped [OF dl] nf cp src]
      show "fs st' (edir @ [n]) = fs st (idir @ [n])" using f by simp
    qed
    then show ?thesis using x by simp
  qed
  then show ?thesis using d inp by simp
qed

theorem failed_document_quarantined_witness:
  "err_dir \<noteq> [] \<and> dirs_separate in_dir rep_dir txt_dir err_dir \<and>
   distinct (listdir mixed_env in_dir) \<and>
   py ''bad.pdf'' \<in> set (failures (new_events mixed_st
      (snd (main mixed_env in_dir rep_dir txt_dir (Some err_dir) (Some 50) mixed_st)))) \<and>
   copy_ok mixed_env (in_dir @ [py ''bad.pdf'']) (err_dir @ [py ''bad.pdf'']) \<and>
   fs mixed_st (in_dir @ [py ''bad.pdf'']) = Some (Opaque 0) \<and>
   fst (main mixed_env in_dir rep_dir txt_dir (Some err_dir) (Some 50) mixed_st) = None \<and>
   dispatched (new_events mixed_st
      (snd (main mixed_env in_dir rep_dir txt_dir (Some err_dir) (Some 50) mixed_st))) =
     [py ''bad.pdf'', py ''good.pdf'', py ''scan.pdf''] \<and>
   fs (snd (main mixed_env in_dir rep_dir txt_dir (Some err_dir) (Some 50) mixed_st))
     (in_dir @ [py ''bad.pdf'']) = Some (Opaque 0) \<and>
   fs (snd (main mixed_env in_dir rep_dir txt_dir (Some err_dir) (Some 50) mixed_st))
     (err_dir @ [py ''bad.pdf'']) = Some (Opaque 0) \<and>
   distinct (listdir refuse_env in_dir) \<and>
   py ''a.pdf'' \<in> set (failures (new_events locked_first
      (snd (main refuse_env in_dir rep_dir txt_dir (Some err_dir) (Some 50) locked_first)))) \<and>
   \<not> copy_ok refuse_env (in_dir @ [py ''a.pdf'']) (err_dir @ [py ''a.pdf'']) \<and>
   fst (main refuse_env in_dir rep_dir txt_dir (Some err_dir) (Some 50) locked_first) = None \<and>
   dispatched (new_events locked_first
      (snd (main refuse_env in_dir rep_dir txt_dir (Some err_dir) (Some 50) locked_first))) =
     [py ''a.pdf'', py ''b.pdf''] \<and>
   fs (snd (main refuse_env in_dir rep_dir txt_dir (Some err_dir) (Some 50) locked_first))
     (in_dir @ [py ''a.pdf'']) = Some (Opaque 0)"
proof -
  let ?r = "main mixed_env in_dir rep_dir txt_dir (Some err_dir) (Some 50) mixed_st"
  let ?s = "main refuse_env in_dir rep_dir txt_dir (Some err_dir) (Some 50) locked_first"
  have m: "?r = (fst ?r, snd ?r)" by simp
  have dl: "distinct (listdir mixed_env in_dir)" by (simp add: mixed_env_def base_env_def py_def)
  have n: "py ''bad.pdf'' \<in> set (failures (new_events mixed_st (snd ?r)))"
    by (simp add: run_defs trace_defs)
  have cp: "copy_ok mixed_env (in_dir @ [py ''bad.pdf'']) (err_dir @ [py ''bad.pdf''])"
    by (simp add: mixed_env_def base_env_def)
  have src: "fs mixed_st (in_dir @ [py ''bad.pdf'']) = Some (Opaque 0)"
    by (simp add: mixed_st_def in_dir_def py_def)
  have cap: "capped (Some 50) (pdf_files mixed_env in_dir) = [py ''bad.pdf'', py ''good.pdf'', py ''scan.pdf'']"
    by (simp add: capped_def pdf_files_def is_pdf_name_def endswith_def lower_def mixed_env_def
        base_env_def py_def)
  have m2: "?s = (fst ?s, snd ?s)" by simp
  have dl2: "distinct (listdir refuse_env in_dir)" by (simp add: refuse_env_def base_env_def py_def)
  have n2: "py ''a.pdf'' \<in> set (failures (new_events locked_first (snd ?s)))"
    by (simp add: run_defs trace_defs)
  have cp2: "\<not> copy_ok refuse_env (in_dir @ [py ''a.pdf'']) (err_dir @ [py ''a.pdf''])"
    by (simp add: refuse_env_def base_env_def)
  have src2: "fs locked_first (in_dir @ [py ''a.pdf'']) = Some (Opaque 0)"
    by (simp add: locked_first_def in_dir_def py_def)
  have cap2: "capped (Some 50) (pdf_files refuse_env in_dir) = [py ''a.pdf'', py ''b.pdf'']"
    by (simp add: capped_def pdf_files_def is_pdf_name_def endswith_def lower_def refuse_env_def
        base_env_def py_def)
  note t1 = failed_document_quarantined [OF m default_dirs(2) default_dirs(1) dl n]
  note t2 = failed_document_quarantined [OF m2 default_dirs(2) default_dirs(1) dl2 n2]
  have a: "fst ?r = None"
    "dispatched (new_events mixed_st (snd ?r)) = [py ''bad.pdf'', py ''good.pdf'', py ''scan.pdf'']"
    "fs (snd ?r) (in_dir @ [py ''bad.pdf'']) = Some (Opaque 0)"
    "fs (snd ?r) (err_dir @ [py ''bad.pdf'']) = Some (Opaque 0)"
    using t1 cp src cap by simp_all
  have b: "fst ?s = None"
    "dispatched (new_events locked_first (snd ?s)) = [py ''a.pdf'', py ''b.pdf'']"
    "fs (snd ?s) (in_dir @ [py ''a.pdf'']) = Some (Opaque 0)"
    using t2 src2 cap2 by simp_all
  show ?thesis
    using default_dirs dl n cp src a dl2 n2 cp2 b by simp
qed

text \<open>
  Claim C4, as stated, fails when the copy itself raises: the handler passes over that
  exception, so a document that cannot be read and cannot be copied fails and leaves
  nothing in the error directory.
\<close>

theorem failed_document_quarantined_counterexample:
  "failures (events (snd (main refuse_env in_dir rep_dir txt_dir (Some err_dir) (Some 50) locked_first))) =
     [py ''a.pdf''] \<and>
   fs locked_first (in_dir @ [py ''a.pdf'']) = Some (Opaque 0) \<and>
   fs (snd (main refuse_env in_dir rep_dir txt_dir (Some err_dir) (Some 50) locked_first))
     (err_dir @ [py ''a.pdf'']) = None"
  by (simp add: run_defs trace_defs)




text \<open>
  Claim C2, as amended. When none of the candidate executables responds, the repair stage
  raises its configuration error, and \<open>process_pdf\<close> contains it for the document at
  hand: the error is logged with the file name, the original is copied into the error
  directory when one is configured and the copy is not refused, and \<open>process_pdf\<close>
  returns normally, so the batch goes on to the next document.
\<close>

theorem missing_repair_tool_contained:
  assumes none: "list_all (\<lambda>cand. \<not> gs_responds env cand) gs_candidates"
    and mk: "makedirs_ok env rdir" "truthy ed \<longrightarrow> makedirs_ok env (the ed)"
    and dig: "is_digital (fs st) p"
  shows "ghostscript_repair env p rdir st = (Inl not_found, st) \<and>
         process_pdf env p rdir odir ed rd st =
           (None,
            (emit (LogError (basename p) not_found) (emit (LogDigital (basename p)) st))
              \<lparr>fs := (if truthy ed \<and> copy_ok env p (the ed @ [basename p])
                      then (fs st)(the ed @ [basename p] := fs st p) else fs st)\<rparr>)"
proof -
  have pr: "probe_gs env gs_candidates = None"
    using none by (simp add: gs_candidates_def)
  have g: "\<And>s. ghostscript_repair env p rdir s = (Inl not_found, s)"
    using pr mk(1) by (simp add: ghostscript_repair_def not_found_def)
  have src: "fs st p \<noteq> None"
    using dig by (auto simp: is_digital_def fitz_open_def split: option.splits)
  have d: "digital_branch env p rdir st = (Some not_found, emit (LogDigital (basename p)) st)"
    by (simp add: digital_branch_def g)
  have "process_pdf env p rdir odir ed rd st =
        handle_error env p ed not_found (emit (LogDigital (basename p)) st)"
    using dig d by (simp add: process_pdf_def)
  also have "\<dots> = (None,
            (emit (LogError (basename p) not_found) (emit (LogDigital (basename p)) st))
              \<lparr>fs := (if truthy ed \<and> copy_ok env p (the ed @ [basename p])
                      then (fs st)(the ed @ [basename p] := fs st p) else fs st)\<rparr>)"
    using mk(2) src
    by (auto simp: handle_error_def shutil_copy_def path_join_def emit_def Let_def)
  finally show ?thesis using g by simp
qed

theorem missing_repair_tool_contained_witness:
  "list_all (\<lambda>cand. \<not> gs_responds base_env cand) gs_candidates \<and>
   makedirs_ok base_env rep_dir \<and> makedirs_ok base_env err_dir \<and>
   is_digital (fs two_docs) (in_dir @ [py ''a.pdf'']) \<and>
   ghostscript_repair base_env (in_dir @ [py ''a.pdf'']) rep_dir two_docs = (Inl not_found, two_docs) \<and>
   fst (process_pdf base_env (in_dir @ [py ''a.pdf'']) rep_dir txt_dir (Some err_dir) (Some 0) two_docs) = None \<and>
   events (snd (process_pdf base_env (in_dir @ [py ''a.pdf'']) rep_dir txt_dir (Some err_dir) (Some 0) two_docs)) =
     [LogDigital (py ''a.pdf''), LogError (py ''a.pdf'') not_found] \<and>
   fs (snd (process_pdf base_env (in_dir @ [py ''a.pdf'']) rep_dir txt_dir (Some err_dir) (Some 0) two_docs))
     (err_dir @ [py ''a.pdf'']) = Some (Pdf [text_page])"
proof -
  have h1: "list_all (\<lambda>cand. \<not> gs_responds base_env cand) gs_candidates"
    by (simp add: base_env_def gs_candidates_def)
  have h2: "makedirs_ok base_env rep_dir" "makedirs_ok base_env err_dir"
    by (simp_all add: base_env_def)
  have h3: "truthy (Some err_dir) \<longrightarrow> makedirs_ok base_env (the (Some err_dir))"
    using h2 by simp
  have h4: "is_digital (fs two_docs) (in_dir @ [py ''a.pdf''])"
    by (simp add: run_defs)
  have t: "truthy (Some err_dir)" "copy_ok base_env (in_dir @ [py ''a.pdf'']) (err_dir @ [py ''a.pdf''])"
    "fs two_docs (in_dir @ [py ''a.pdf'']) = Some (Pdf [text_page])" "events two_docs = []"
    by (simp_all add: truthy_def err_dir_def in_dir_def base_env_def two_docs_def py_def)
  from missing_repair_tool_contained [OF h1 h2(1) h3 h4, of txt_dir "Some 0"]
  show ?thesis using h1 h2 h4 t by simp
qed

text \<open>
  Claim C2, as stated, fails: with no repair executable installed the run does not abort.
  The digital document is logged as failed, and the next document is processed and
  filed.
\<close>

theorem missing_repair_tool_counterexample:
  "probe_gs base_env gs_candidates = None \<and>
   is_digital (fs two_docs) (in_dir @ [py ''a.pdf'']) \<and>
   fst (main base_env in_dir rep_dir txt_dir (Some err_dir) (Some 50) two_docs) = None \<and>
   dispatched (events (snd (main base_env in_dir rep_dir txt_dir (Some err_dir) (Some 50) two_docs))) =
     [py ''a.pdf'', py ''b.pdf''] \<and>
   failures (events (snd (main base_env in_dir rep_dir txt_dir (Some err_dir) (Some 50) two_docs))) =
     [py ''a.pdf''] \<and>
   fs (snd (main base_env in_dir rep_dir txt_dir (Some err_dir) (Some 50) two_docs))
     (txt_dir @ [py ''static_data'', py ''b_ocr.txt'']) \<noteq> None"
  by (simp add: run_defs trace_defs)

end
